theory Spec2Isabelle
  imports Complex_Main
begin

section \<open>The texture atlas allocator (Texgen in blockset.js)\<close>

text \<open>
  The embedding follows \<^verbatim>\<open>src/blockset.js\<close>. A \<^verbatim>\<open>Texgen\<close> object is a record of
  its closure variables and public fields; every method takes the record and returns the
  updated one. JavaScript numbers that are indices or sizes are \<open>nat\<close> or \<open>int\<close>;
  numbers that are fractions (UV coordinates, vertex coordinates, colours) are \<open>rat\<close>,
  the exact values of which the doubles of the program are approximations.

  An \<^verbatim>\<open>ImageData\<close> object is a width (the image is square) and the
  \<^verbatim>\<open>Uint8ClampedArray\<close> of its bytes. \<^verbatim>\<open>self.image\<close> is a reference that
  \<^verbatim>\<open>enlargeTexture\<close> replaces while \<^verbatim>\<open>rebuildOne\<close> keeps the array it read at
  its start, so image objects live in a heap indexed by object number.
\<close>

record imageData =
  width :: nat
  data :: "nat list"

record 'k texgen =
  tileSize :: nat
  textureSize :: nat
  tileUVSize :: rat
  borderUVOffset :: rat
  borderTileUVSize :: rat
  tileCountSqrt :: nat
  imageHeap :: "nat \<Rightarrow> imageData"
  imageCount :: nat
  image :: nat
  tileAllocMap :: "nat list"
  freePointer :: nat
  usageMap :: "'k \<rightharpoonup> nat"
  textureLost :: bool

definition borderTileSize :: "'k texgen \<Rightarrow> nat" where
  "borderTileSize s = tileSize s + 2"

text \<open>\<^verbatim>\<open>document.createElement("canvas").getContext("2d").createImageData(n, n)\<close>:
  a fresh image of transparent black.\<close>

definition createImageData :: "nat \<Rightarrow> imageData" where
  "createImageData n = \<lparr>width = n, data = replicate (4 * n * n) 0\<rparr>"

definition enlargeTexture :: "'k texgen \<Rightarrow> 'k texgen" where
  "enlargeTexture s =
     (let ts = textureSize s * 2;
          tcs = ts div borderTileSize s
      in s\<lparr>textureSize := ts,
            tileUVSize := of_nat (tileSize s) / of_nat ts,
            borderUVOffset := 1 / of_nat ts,
            borderTileUVSize := of_nat (borderTileSize s) / of_nat ts,
            tileCountSqrt := tcs,
            imageHeap := (imageHeap s)(imageCount s := createImageData ts),
            imageCount := imageCount s + 1,
            image := imageCount s,
            tileAllocMap := replicate (tcs * tcs) 0,
            freePointer := 0,
            usageMap := Map.empty,
            textureLost := True\<rparr>)"

text \<open>The constructor: \<^verbatim>\<open>textureSize = 128\<close>, every other variable still undefined
  (written here as zero or empty), \<^verbatim>\<open>textureLost = false\<close>, then the first
  \<^verbatim>\<open>enlargeTexture()\<close>.\<close>

definition Texgen :: "nat \<Rightarrow> 'k texgen" where
  "Texgen tsz = enlargeTexture
     \<lparr>tileSize = tsz, textureSize = 128, tileUVSize = 0, borderUVOffset = 0,
      borderTileUVSize = 0, tileCountSqrt = 0, imageHeap = (\<lambda>_. \<lparr>width = 0, data = []\<rparr>),
      imageCount = 0, image = 0, tileAllocMap = [], freePointer = 0,
      usageMap = Map.empty, textureLost = False\<rparr>"

text \<open>\<^verbatim>\<open>tileAllocMap[freePointer]\<close> as a condition: a read past the end of a typed
  array is \<^verbatim>\<open>undefined\<close>, which is falsy.\<close>

definition truthyAt :: "nat list \<Rightarrow> nat \<Rightarrow> bool" where
  "truthyAt m i = (i < length m \<and> m ! i \<noteq> 0)"

text \<open>The loop of \<^verbatim>\<open>tileAlloc\<close>, with \<open>n\<close> the counter before \<^verbatim>\<open>++n\<close>. The
  result is the state, the index returned, and whether \<^verbatim>\<open>enlargeTexture\<close> ran (so
  whether the variable \<^verbatim>\<open>usageMap\<close> now holds a new object). A store past the end of
  a typed array is ignored, as is \<open>xs[i := v]\<close> past the end of a list.\<close>

function tileAlloc_loop :: "'k texgen \<Rightarrow> nat \<Rightarrow> 'k texgen \<times> nat \<times> bool" where
  "tileAlloc_loop s n =
     (if truthyAt (tileAllocMap s) (freePointer s) then
        (if Suc n \<ge> length (tileAllocMap s) then (enlargeTexture s, 0, True)
         else tileAlloc_loop
                (s\<lparr>freePointer := (freePointer s + 1) mod length (tileAllocMap s)\<rparr>) (Suc n))
      else (s\<lparr>tileAllocMap := (tileAllocMap s)[freePointer s := 1]\<rparr>, freePointer s, False))"
  by pat_completeness auto
termination
  by (relation "measure (\<lambda>(s, n). length (tileAllocMap s) - n)") auto

declare tileAlloc_loop.simps [simp del]

definition tileAlloc :: "'k texgen \<Rightarrow> 'k texgen \<times> nat \<times> bool" where
  "tileAlloc s = tileAlloc_loop s 0"

definition tileFree :: "'k texgen \<Rightarrow> nat \<Rightarrow> 'k texgen" where
  "tileFree s index = s\<lparr>tileAllocMap := (tileAllocMap s)[index := 0]\<rparr>"

text \<open>\<^verbatim>\<open>[Math.floor(index / tileCountSqrt), mod(index, tileCountSqrt)]\<close>. With
  \<^verbatim>\<open>tileCountSqrt\<close> zero the quotient is \<^verbatim>\<open>NaN\<close> or \<^verbatim>\<open>Infinity\<close>: \<open>None\<close>
  stands for a pair that is not finite.\<close>

definition tileCoords :: "'k texgen \<Rightarrow> nat \<Rightarrow> (nat \<times> nat) option" where
  "tileCoords s index =
     (if tileCountSqrt s = 0 then None
      else Some (index div tileCountSqrt s, index mod tileCountSqrt s))"

text \<open>In \<^verbatim>\<open>index = usageMap[usageIndex] = tileAlloc()\<close> the object to store into is
  read from the variable \<^verbatim>\<open>usageMap\<close> before \<^verbatim>\<open>tileAlloc()\<close> runs. When
  \<^verbatim>\<open>tileAlloc\<close> enlarges the texture the variable gets a new empty object, and the
  store goes to the old one, which nothing refers to any more.\<close>

definition allocationFor :: "'k texgen \<Rightarrow> 'k \<Rightarrow> 'k texgen \<times> (nat \<times> nat) option" where
  "allocationFor s usageIndex =
     (if textureLost s then (s, Some (0, 0))
      else (case usageMap s usageIndex of
              Some index \<Rightarrow> (s, tileCoords s index)
            | None \<Rightarrow>
                (case tileAlloc s of (s', index, replaced) \<Rightarrow>
                   (let s'' = (if replaced then s'
                               else s'\<lparr>usageMap := (usageMap s')(usageIndex \<mapsto> index)\<rparr>)
                    in (s'', tileCoords s'' index)))))"

text \<open>\<^verbatim>\<open>tileFree(usageMap[usageIndex])\<close> for a token that is not in the map stores
  at the property \<^verbatim>\<open>undefined\<close> of the typed array, which is no cell of it.\<close>

definition deallocateUsage :: "'k texgen \<Rightarrow> 'k \<Rightarrow> 'k texgen" where
  "deallocateUsage s usageIndex =
     (if textureLost s then s
      else (let s' = (case usageMap s usageIndex of
                        None \<Rightarrow> s
                      | Some index \<Rightarrow> tileFree s index)
            in s'\<lparr>usageMap := (usageMap s')(usageIndex := None)\<rparr>))"

text \<open>The caller's acknowledgement, \<^verbatim>\<open>texgen.textureLost = false\<close> in
  \<^verbatim>\<open>freshenTexture\<close>.\<close>

definition acknowledge :: "'k texgen \<Rightarrow> 'k texgen" where
  "acknowledge s = s\<lparr>textureLost := False\<rparr>"


subsection \<open>Coordinates of a tile\<close>

text \<open>A JavaScript number that may fail to be a finite number: \<open>None\<close> is
  \<^verbatim>\<open>NaN\<close>, \<^verbatim>\<open>undefined\<close> or an infinity.\<close>

type_synonym jsnum = "rat option"

definition uvFor :: "'k texgen \<Rightarrow> 'k \<Rightarrow> 'k texgen \<times> (rat \<times> rat) option" where
  "uvFor s usageIndex =
     (case allocationFor s usageIndex of (s', c) \<Rightarrow>
        (s', map_option (\<lambda>(c0, c1).
               (borderUVOffset s' + borderTileUVSize s' * of_nat c0,
                borderUVOffset s' + borderTileUVSize s' * of_nat c1)) c))"

definition imageCoordsFor :: "'k texgen \<Rightarrow> 'k \<Rightarrow> 'k texgen \<times> (int \<times> int) option" where
  "imageCoordsFor s usageIndex =
     (case allocationFor s usageIndex of (s', c) \<Rightarrow>
        (s', map_option (\<lambda>(c0, c1).
               (1 + int (borderTileSize s') * int c0,
                1 + int (borderTileSize s') * int c1)) c))"

subsection \<open>Pixel arrays\<close>

text \<open>A store into a \<^verbatim>\<open>Uint8ClampedArray\<close> at an index outside it is ignored. A
  read outside it is \<^verbatim>\<open>undefined\<close>; the program only stores such a value back
  into the array (where it becomes 0) or compares it with \<^verbatim>\<open>> 0\<close> (false), so the
  read is modelled as 0.\<close>

definition wr :: "nat list \<Rightarrow> int \<Rightarrow> nat \<Rightarrow> nat list" where
  "wr d i v = (if 0 \<le> i \<and> i < int (length d) then d[nat i := v] else d)"

definition rd :: "nat list \<Rightarrow> int \<Rightarrow> nat" where
  "rd d i = (if 0 \<le> i \<and> i < int (length d) then d ! nat i else 0)"

text \<open>The conversion of a number stored into a \<^verbatim>\<open>Uint8ClampedArray\<close>: clamped to
  0..255 and rounded to the nearest integer, ties to even.\<close>

definition toUint8Clamp :: "rat \<Rightarrow> nat" where
  "toUint8Clamp x =
     (if x \<le> 0 then 0
      else if 255 \<le> x then 255
      else (let f = \<lfloor>x\<rfloor>; r = x - of_int f
            in nat (if r < 1 / 2 then f
                    else if 1 / 2 < r then f + 1
                    else if even f then f else f + 1)))"

subsection \<open>Border generation: Texgen.completed\<close>

definition pix :: "int \<times> int \<Rightarrow> nat \<Rightarrow> int \<Rightarrow> int \<Rightarrow> int" where
  "pix coords w x y = (fst coords + x + int w * (snd coords + y)) * 4"

definition copy :: "nat list \<Rightarrow> int \<Rightarrow> int \<Rightarrow> nat list" where
  "copy d dst src =
     (let d0 = wr d dst (rd d src);
          d1 = wr d0 (dst + 1) (rd d0 (src + 1));
          d2 = wr d1 (dst + 2) (rd d1 (src + 2))
      in wr d2 (dst + 3) (rd d2 (src + 3)))"

definition completedRows :: "int \<times> int \<Rightarrow> nat \<Rightarrow> nat \<Rightarrow> nat list \<Rightarrow> nat list" where
  "completedRows coords w tsz d =
     foldl (\<lambda>d x. copy (copy d (pix coords w x (- 1)) (pix coords w x 0))
                         (pix coords w x (int tsz)) (pix coords w x (int tsz - 1)))
           d (map int [0..<tsz])"

definition completedColumns :: "int \<times> int \<Rightarrow> nat \<Rightarrow> nat \<Rightarrow> nat list \<Rightarrow> nat list" where
  "completedColumns coords w tsz d =
     foldl (\<lambda>d y. copy (copy d (pix coords w (- 1) y) (pix coords w 0 y))
                         (pix coords w (int tsz) y) (pix coords w (int tsz - 1) y))
           d [- 1..int tsz]"

text \<open>With coordinates that are not numbers every index of \<^verbatim>\<open>pix\<close> is
  \<^verbatim>\<open>NaN\<close> and \<^verbatim>\<open>copy\<close> changes no byte.\<close>

definition completed :: "'k texgen \<Rightarrow> 'k \<Rightarrow> 'k texgen" where
  "completed s usageIndex =
     (case imageCoordsFor s usageIndex of
        (s', None) \<Rightarrow> s'
      | (s', Some coords) \<Rightarrow>
          (let img = imageHeap s' (image s');
               w = width img;
               d = completedColumns coords w (tileSize s')
                     (completedRows coords w (tileSize s') (data img))
           in s'\<lparr>imageHeap := (imageHeap s')(image s' := img\<lparr>data := d\<rparr>)\<rparr>))"

section \<open>Block types\<close>

text \<open>A \<^verbatim>\<open>BlockType\<close> is a \<^verbatim>\<open>BlockType.Color\<close> (its \<^verbatim>\<open>color\<close> array) or
  a \<^verbatim>\<open>BlockType.World\<close> (its \<^verbatim>\<open>world\<close>, and the \<^verbatim>\<open>opaque\<close> flag and
  \<^verbatim>\<open>_color\<close> that \<^verbatim>\<open>recomputeWorldBlockProperties\<close> stored). The constructor
  \<^verbatim>\<open>BlockType\<close> itself throws, so there is no third kind and the last branch of
  \<^verbatim>\<open>rebuildOne\<close> (its \<^verbatim>\<open>throw\<close>) is not reached. The \<^verbatim>\<open>World\<close> class is not
  part of blockset.js: a world is its side \<^verbatim>\<open>wx\<close> and its two lookups
  \<^verbatim>\<open>gt(x,y,z)\<close> and \<^verbatim>\<open>opaque(x,y,z)\<close>.\<close>

datatype blockType =
    Color "rat \<times> rat \<times> rat \<times> rat"
  | World world bool "rat \<times> rat \<times> rat"
and world =
    MkWorld (wx: nat) (gt: "int \<Rightarrow> int \<Rightarrow> int \<Rightarrow> blockType")
            (opaque: "int \<Rightarrow> int \<Rightarrow> int \<Rightarrow> bool")

text \<open>\<^verbatim>\<open>writeColor(scale, target, offset)\<close> of both kinds, with \<^verbatim>\<open>target\<close> a
  \<^verbatim>\<open>Uint8ClampedArray\<close>. With an offset that is not a number nothing is stored.\<close>

fun colorComponents :: "blockType \<Rightarrow> rat \<Rightarrow> rat list" where
  "colorComponents (Color (r, g, b, a)) scale = [scale * r, scale * g, scale * b, scale * a]"
| "colorComponents (World w op (r, g, b)) scale =
     [scale * r, scale * g, scale * b, (if op then scale else 0)]"

definition writeColor :: "blockType \<Rightarrow> rat \<Rightarrow> nat list \<Rightarrow> int \<Rightarrow> nat list" where
  "writeColor bt scale target offset =
     (let cs = colorComponents bt scale;
          t0 = wr target offset (toUint8Clamp (cs ! 0));
          t1 = wr t0 (offset + 1) (toUint8Clamp (cs ! 1));
          t2 = wr t1 (offset + 2) (toUint8Clamp (cs ! 2))
      in wr t2 (offset + 3) (toUint8Clamp (cs ! 3)))"


section \<open>Face synthesis (rebuildOne in blockset.js)\<close>

text \<open>The dimension names \<^verbatim>\<open>"z"\<close>, \<^verbatim>\<open>"x"\<close>, \<^verbatim>\<open>"y"\<close>; the face names
  \<^verbatim>\<open>"l" + dimName\<close> and \<^verbatim>\<open>"h" + dimName\<close>; and the usage tokens, which are the
  strings \<^verbatim>\<open>blockID.toString()\<close> and \<^verbatim>\<open>blockID + "," + dimName + "," + layer\<close>.\<close>

datatype dim = DimZ | DimX | DimY

datatype face = Lo dim | Hi dim

datatype usage = ColorUsage nat | SliceUsage nat dim int

text \<open>A \<^verbatim>\<open>mat4\<close> is its sixteen entries; \<^verbatim>\<open>mat4.multiplyVec3\<close> is the function
  of the glMatrix library (which is not part of blockset.js).\<close>

type_synonym mat4 = "int list"

definition multiplyVec3 :: "mat4 \<Rightarrow> 'a \<times> 'a \<times> 'a \<Rightarrow> ('a::comm_ring_1) \<times> 'a \<times> 'a" where
  "multiplyVec3 m vec =
     (case vec of (x, y, z) \<Rightarrow>
        (of_int (m ! 0) * x + of_int (m ! 4) * y + of_int (m ! 8) * z + of_int (m ! 12),
         of_int (m ! 1) * x + of_int (m ! 5) * y + of_int (m ! 9) * z + of_int (m ! 13),
         of_int (m ! 2) * x + of_int (m ! 6) * y + of_int (m ! 10) * z + of_int (m ! 14)))"

definition TILE_MAPPINGS :: "(dim \<times> mat4) list" where
  "TILE_MAPPINGS =
     [(DimZ, [1, 0, 0, 0,
              0, 1, 0, 0,
              0, 0, 1, 0,
              0, 0, 0, 1]),
      (DimX, [0, 1, 0, 0,
              0, 0, 1, 0,
              1, 0, 0, 0,
              0, 0, 0, 1]),
      (DimY, [0, 0, 1, 0,
              1, 0, 0, 0,
              0, 1, 0, 0,
              0, 0, 0, 1])]"

record geometry =
  vertices :: "jsnum list"
  texcoords :: "jsnum list"

type_synonym faceData = "face \<rightharpoonup> geometry"

definition pushVertex :: "jsnum list \<Rightarrow> rat \<times> rat \<times> rat \<Rightarrow> jsnum list" where
  "pushVertex array vec = (case vec of (x, y, z) \<Rightarrow> array @ [Some x, Some y, Some z])"

definition jadd :: "jsnum \<Rightarrow> rat \<Rightarrow> jsnum" where
  "jadd a b = map_option (\<lambda>x. x + b) a"

definition calcTexCoords :: "'k texgen \<Rightarrow> 'k \<Rightarrow> bool \<Rightarrow> 'k texgen \<times> jsnum list" where
  "calcTexCoords s usageIndex flipped =
     (case uvFor s usageIndex of (s', uv) \<Rightarrow>
        (let tileUVSize' = tileUVSize s';
             texO = (if flipped then tileUVSize' else 0);
             texD = (if flipped then 0 else tileUVSize');
             uo = map_option snd uv;
             vo = map_option fst uv
         in (s', [jadd uo texO, jadd vo texO,
                  jadd uo tileUVSize', jadd vo 0,
                  jadd uo 0, jadd vo tileUVSize',
                  jadd uo texD, jadd vo texD,
                  jadd uo 0, jadd vo tileUVSize',
                  jadd uo tileUVSize', jadd vo 0])))"

text \<open>\<^verbatim>\<open>pushQuad\<close> returns the state and the two arrays it pushed to.\<close>

definition quadVertices :: "bool \<Rightarrow> mat4 \<Rightarrow> rat \<Rightarrow> jsnum list" where
  "quadVertices flipped transform depth =
     (let a = (if flipped then 1 else 0);
          b = (if flipped then 0 else 1);
          v0 = pushVertex [] (multiplyVec3 transform (a, a, depth));
          v1 = pushVertex v0 (multiplyVec3 transform (0, 1, depth));
          v2 = pushVertex v1 (multiplyVec3 transform (1, 0, depth));
          v3 = pushVertex v2 (multiplyVec3 transform (b, b, depth));
          v4 = pushVertex v3 (multiplyVec3 transform (1, 0, depth))
      in pushVertex v4 (multiplyVec3 transform (0, 1, depth)))"

definition pushQuad ::
  "'k texgen \<Rightarrow> jsnum list \<Rightarrow> jsnum list \<Rightarrow> bool \<Rightarrow> mat4 \<Rightarrow> rat \<Rightarrow> 'k
     \<Rightarrow> 'k texgen \<times> jsnum list \<times> jsnum list" where
  "pushQuad s verts tcs flipped transform depth usageIndex =
     (case calcTexCoords s usageIndex flipped of (s', tc) \<Rightarrow>
        (s', verts @ quadVertices flipped transform depth, tcs @ tc))"

subsection \<open>Colour blocks\<close>

text \<open>\<^verbatim>\<open>rebuildOne\<close> reads \<^verbatim>\<open>texgen.image.width\<close> and \<^verbatim>\<open>texgen.image.data\<close>
  once, at its start: \<open>texImg\<close> is the image object it then writes to, whatever
  \<^verbatim>\<open>texgen.image\<close> has become.\<close>

definition writeTex :: "'k texgen \<Rightarrow> nat \<Rightarrow> (nat list \<Rightarrow> nat list) \<Rightarrow> 'k texgen" where
  "writeTex s texImg f =
     s\<lparr>imageHeap := (imageHeap s)(texImg := (imageHeap s texImg)\<lparr>data := f (data (imageHeap s texImg))\<rparr>)\<rparr>"

definition colorPixel ::
  "nat \<Rightarrow> nat \<Rightarrow> (int \<times> int) option \<Rightarrow> rat \<times> rat \<times> rat \<times> rat \<Rightarrow> 'k texgen \<Rightarrow> nat \<times> nat
     \<Rightarrow> 'k texgen" where
  "colorPixel texImg texWidth coord rgba s uv =
     (case coord of
        None \<Rightarrow> s
      | Some (pixu, pixv) \<Rightarrow>
          (case (rgba, uv) of ((r, g, b, a), (u, v)) \<Rightarrow>
             (let c = ((pixu + int u) * int texWidth + pixv + int v) * 4
              in writeTex s texImg
                   (\<lambda>d. wr (wr (wr (wr d (c + 0) (toUint8Clamp r)) (c + 1) (toUint8Clamp g))
                                (c + 2) (toUint8Clamp b)) (c + 3) (toUint8Clamp a)))))"

definition colorFace ::
  "'k \<Rightarrow> 'k texgen \<times> faceData \<Rightarrow> dim \<times> mat4 \<Rightarrow> 'k texgen \<times> faceData" where
  "colorFace usageIndex acc m =
     (case (acc, m) of ((s, faceData), (dimName, transform)) \<Rightarrow>
        (case pushQuad s [] [] False transform 0 usageIndex of (s1, verticesL, texcoordsL) \<Rightarrow>
        (case pushQuad s1 [] [] True transform 1 usageIndex of (s2, verticesH, unused) \<Rightarrow>
           (s2, faceData(Lo dimName \<mapsto> \<lparr>vertices = verticesL, texcoords = texcoordsL\<rparr>,
                         Hi dimName \<mapsto> \<lparr>vertices = verticesH, texcoords = texcoordsL\<rparr>)))))"

definition colorFaceData ::
  "usage texgen \<Rightarrow> nat \<Rightarrow> rat \<times> rat \<times> rat \<times> rat \<Rightarrow> usage texgen \<times> faceData" where
  "colorFaceData s blockID color =
     (let tsz = tileSize s;
          texImg = image s;
          texWidth = width (imageHeap s (image s));
          usageIndex = ColorUsage blockID
      in case imageCoordsFor s usageIndex of (s1, coord) \<Rightarrow>
           (case color of (c0, c1, c2, c3) \<Rightarrow>
              (let s2 = foldl (colorPixel texImg texWidth coord
                                 (255 * c0, 255 * c1, 255 * c2, 255 * c3))
                              s1 (List.product [0..<tsz] [0..<tsz]);
                   s3 = completed s2 usageIndex
               in foldl (colorFace usageIndex) (s3, Map.empty) TILE_MAPPINGS)))"

definition rebuildColor ::
  "nat \<Rightarrow> usage texgen \<Rightarrow> nat \<Rightarrow> rat \<times> rat \<times> rat \<times> rat \<Rightarrow> usage texgen \<times> faceData list" where
  "rebuildColor count s blockID color =
     (case colorFaceData s blockID color of
        (s', faceData) \<Rightarrow> (s', replicate count faceData))"

subsection \<open>World blocks: one slice\<close>

definition slicePixel ::
  "world \<Rightarrow> mat4 \<Rightarrow> int \<Rightarrow> nat \<Rightarrow> nat \<Rightarrow> (int \<times> int) option
     \<Rightarrow> 'k texgen \<times> bool \<times> bool \<Rightarrow> nat \<times> nat \<Rightarrow> 'k texgen \<times> bool \<times> bool" where
  "slicePixel world transform layer texImg texWidth coord acc uv =
     (case coord of
        None \<Rightarrow> acc
      | Some (pixu, pixv) \<Rightarrow>
          (case (acc, uv) of ((s, thisLayerNotEmptyL, thisLayerNotEmptyH), (u, v)) \<Rightarrow>
             (let viewL = multiplyVec3 transform (0, 0, - 1);
                  viewH = multiplyVec3 transform (0, 0, 1);
                  c = ((pixu + int u) * int texWidth + pixv + int v) * 4;
                  vec = multiplyVec3 transform (int u, int v, layer);
                  s' = writeTex s texImg
                         (\<lambda>d. writeColor (gt world (fst vec) (fst (snd vec)) (snd (snd vec))) 255 d c)
              in if 0 < rd (data (imageHeap s' texImg)) (c + 3) then
                   (s',
                    thisLayerNotEmptyL \<or>
                      \<not> opaque world (fst vec + fst viewL) (fst (snd vec) + fst (snd viewL))
                                       (snd (snd vec) + snd (snd viewL)),
                    thisLayerNotEmptyH \<or>
                      \<not> opaque world (fst vec + fst viewH) (fst (snd vec) + fst (snd viewH))
                                       (snd (snd vec) + snd (snd viewH)))
                 else (s', thisLayerNotEmptyL, thisLayerNotEmptyH))))"

text \<open>The loop over the pixels of a slice, from both flags false.\<close>

definition slicePixels ::
  "world \<Rightarrow> mat4 \<Rightarrow> int \<Rightarrow> nat \<Rightarrow> nat \<Rightarrow> nat \<Rightarrow> (int \<times> int) option
     \<Rightarrow> 'k texgen \<Rightarrow> 'k texgen \<times> bool \<times> bool" where
  "slicePixels world transform layer tsz texImg texWidth coord s =
     foldl (slicePixel world transform layer texImg texWidth coord)
           (s, False, False) (List.product [0..<tsz] [0..<tsz])"

text \<open>The four arrays a slice pushes to, in the order of the parameters of
  \<^verbatim>\<open>sliceWorld\<close>: \<^verbatim>\<open>texcoordsL\<close>, \<^verbatim>\<open>texcoordsH\<close>, \<^verbatim>\<open>verticesL\<close>,
  \<^verbatim>\<open>verticesH\<close>.\<close>

type_synonym sliceArrays = "jsnum list \<times> jsnum list \<times> jsnum list \<times> jsnum list"

definition sliceWorld ::
  "world \<Rightarrow> bool \<Rightarrow> nat \<Rightarrow> nat \<Rightarrow> nat \<Rightarrow> nat \<Rightarrow> dim \<Rightarrow> int \<Rightarrow> mat4
     \<Rightarrow> usage texgen \<times> sliceArrays \<Rightarrow> usage texgen \<times> sliceArrays" where
  "sliceWorld world blockOpaque blockID tsz texImg texWidth dimName layer transform acc =
     (case acc of (s, texcoordsL, texcoordsH, verticesL, verticesH) \<Rightarrow>
        (let usageIndex = SliceUsage blockID dimName layer;
             tileLastIndex = int tsz - 1
         in case imageCoordsFor s usageIndex of (s1, coord) \<Rightarrow>
              (case slicePixels world transform layer tsz texImg texWidth coord s1 of
                 (s2, thisLayerNotEmptyL, thisLayerNotEmptyH) \<Rightarrow>
                   if \<not> thisLayerNotEmptyL \<and> \<not> thisLayerNotEmptyH then
                     (deallocateUsage s2 usageIndex, texcoordsL, texcoordsH, verticesL, verticesH)
                   else
                     (let s3 = completed s2 usageIndex
                      in case (if thisLayerNotEmptyL \<and> (\<not> blockOpaque \<or> layer = 0)
                               then pushQuad s3 verticesL texcoordsL False transform
                                      (of_int layer / of_nat tsz) usageIndex
                               else (s3, verticesL, texcoordsL)) of
                           (s4, verticesL', texcoordsL') \<Rightarrow>
                             (case (if thisLayerNotEmptyH \<and> (\<not> blockOpaque \<or> layer = tileLastIndex)
                                    then pushQuad s4 verticesH texcoordsH True transform
                                           (of_int (layer + 1) / of_nat tsz) usageIndex
                                    else (s4, verticesH, texcoordsH)) of
                                (s5, verticesH', texcoordsH') \<Rightarrow>
                                  (s5, texcoordsL', texcoordsH', verticesL', verticesH'))))))"


subsection \<open>The rotation cache\<close>

text \<open>\<^verbatim>\<open>applyCubeSymmetry\<close>, its \<^verbatim>\<open>isReflection\<close> and its \<^verbatim>\<open>COUNT\<close> are
  defined outside blockset.js and are parameters here. An array element read outside the
  array is \<^verbatim>\<open>undefined\<close>.\<close>

record cubeSymmetry =
  applyCubeSymmetry :: "nat \<Rightarrow> rat \<Rightarrow> jsnum \<times> jsnum \<times> jsnum \<Rightarrow> jsnum \<times> jsnum \<times> jsnum"
  isReflection :: "nat \<Rightarrow> bool"
  COUNT :: nat

definition jsget :: "jsnum list \<Rightarrow> int \<Rightarrow> jsnum" where
  "jsget xs i = (if 0 \<le> i \<and> i < int (length xs) then xs ! nat i else None)"

definition rotateVertex :: "cubeSymmetry \<Rightarrow> nat \<Rightarrow> jsnum list \<Rightarrow> int \<Rightarrow> jsnum list" where
  "rotateVertex symm rot verts i =
     (case applyCubeSymmetry symm rot 1 (jsget verts i, jsget verts (i + 1), jsget verts (i + 2)) of
        (t0, t1, t2) \<Rightarrow> [t0, t1, t2])"

function rotateVertices_down ::
  "cubeSymmetry \<Rightarrow> nat \<Rightarrow> jsnum list \<Rightarrow> int \<Rightarrow> jsnum list \<Rightarrow> jsnum list" where
  "rotateVertices_down symm rot verts i out =
     (if 0 \<le> i then rotateVertices_down symm rot verts (i - 3) (out @ rotateVertex symm rot verts i)
      else out)"
  by pat_completeness auto
termination
  by (relation "measure (\<lambda>(symm, rot, verts, i, out). nat (i + 3))") auto

declare rotateVertices_down.simps [simp del]

function rotateVertices_up ::
  "cubeSymmetry \<Rightarrow> nat \<Rightarrow> jsnum list \<Rightarrow> int \<Rightarrow> jsnum list \<Rightarrow> jsnum list" where
  "rotateVertices_up symm rot verts i out =
     (if 0 \<le> i \<and> i < int (length verts)
      then rotateVertices_up symm rot verts (i + 3) (out @ rotateVertex symm rot verts i)
      else out)"
  by pat_completeness auto
termination
  by (relation "measure (\<lambda>(symm, rot, verts, i, out). nat (int (length verts) - i))") auto

declare rotateVertices_up.simps [simp del]

definition rotateVertices :: "cubeSymmetry \<Rightarrow> nat \<Rightarrow> jsnum list \<Rightarrow> jsnum list" where
  "rotateVertices symm rot verts =
     (if isReflection symm rot then rotateVertices_down symm rot verts (int (length verts) - 3) []
      else rotateVertices_up symm rot verts 0 [])"

function rotateTexcoords_down :: "jsnum list \<Rightarrow> int \<Rightarrow> jsnum list \<Rightarrow> jsnum list" where
  "rotateTexcoords_down tcs i out =
     (if 0 \<le> i then rotateTexcoords_down tcs (i - 2) (out @ [jsget tcs i, jsget tcs (i + 1)])
      else out)"
  by pat_completeness auto
termination
  by (relation "measure (\<lambda>(tcs, i, out). nat (i + 2))") auto

declare rotateTexcoords_down.simps [simp del]

definition rotateTexcoords :: "cubeSymmetry \<Rightarrow> nat \<Rightarrow> jsnum list \<Rightarrow> jsnum list" where
  "rotateTexcoords symm rot tcs =
     (if isReflection symm rot then rotateTexcoords_down tcs (int (length tcs) - 2) []
      else tcs)"

definition rotateFaceData :: "cubeSymmetry \<Rightarrow> nat \<Rightarrow> faceData \<Rightarrow> faceData" where
  "rotateFaceData symm rot faceData =
     (\<lambda>face. map_option
        (\<lambda>f. \<lparr>vertices = rotateVertices symm rot (vertices f),
               texcoords = rotateTexcoords symm rot (texcoords f)\<rparr>) (faceData face))"

subsection \<open>World blocks: all slices\<close>

text \<open>The loop over the layers in the callback of \<^verbatim>\<open>TILE_MAPPINGS.forEach\<close>. Its
  \<^verbatim>\<open>return\<close> leaves the callback without storing the two faces of the dimension: the
  result is then \<open>None\<close>.\<close>

fun sliceLayers ::
  "(int \<Rightarrow> usage texgen \<times> sliceArrays \<Rightarrow> usage texgen \<times> sliceArrays) \<Rightarrow> int list
     \<Rightarrow> usage texgen \<times> sliceArrays \<Rightarrow> usage texgen \<times> sliceArrays option" where
  "sliceLayers slice [] (s, arrays) = (s, Some arrays)"
| "sliceLayers slice (layer # layers) (s, arrays) =
     (if textureLost s then (s, None)
      else sliceLayers slice layers (slice layer (s, arrays)))"

definition storeFaces :: "faceData \<Rightarrow> dim \<Rightarrow> sliceArrays \<Rightarrow> faceData" where
  "storeFaces faceData dimName arrays =
     (case arrays of (texcoordsL, texcoordsH, verticesL, verticesH) \<Rightarrow>
        faceData(Lo dimName \<mapsto> \<lparr>vertices = verticesL, texcoords = texcoordsL\<rparr>,
                 Hi dimName \<mapsto> \<lparr>vertices = verticesH, texcoords = texcoordsH\<rparr>))"

definition sliceDim ::
  "world \<Rightarrow> bool \<Rightarrow> nat \<Rightarrow> nat \<Rightarrow> nat \<Rightarrow> nat \<Rightarrow> usage texgen \<times> faceData \<Rightarrow> dim \<times> mat4
     \<Rightarrow> usage texgen \<times> faceData" where
  "sliceDim world blockOpaque blockID tsz texImg texWidth acc m =
     (case (acc, m) of ((s, faceData), (dimName, transform)) \<Rightarrow>
        (let slice = (\<lambda>layer. sliceWorld world blockOpaque blockID tsz texImg texWidth
                                 dimName layer transform);
             tileLastIndex = int tsz - 1
         in if blockOpaque then
              (if textureLost s then (s, faceData)
               else (case slice tileLastIndex (slice 0 (s, [], [], [], [])) of
                       (s', arrays) \<Rightarrow> (s', storeFaces faceData dimName arrays)))
            else
              (case sliceLayers slice (map int [0..<tsz]) (s, [], [], [], []) of
                 (s', None) \<Rightarrow> (s', faceData)
               | (s', Some arrays) \<Rightarrow> (s', storeFaces faceData dimName arrays))))"

text \<open>The canonical faces: \<^verbatim>\<open>var faceData = []\<close> after
  \<^verbatim>\<open>TILE_MAPPINGS.forEach\<close>, with the atlas.\<close>

definition worldFaceData ::
  "usage texgen \<Rightarrow> nat \<Rightarrow> world \<Rightarrow> bool \<Rightarrow> usage texgen \<times> faceData" where
  "worldFaceData s blockID world blockOpaque =
     (let tsz = tileSize s;
          texImg = image s;
          texWidth = width (imageHeap s (image s))
      in foldl (sliceDim world blockOpaque blockID tsz texImg texWidth)
               (s, Map.empty) TILE_MAPPINGS)"

definition rebuildWorld ::
  "cubeSymmetry \<Rightarrow> usage texgen \<Rightarrow> nat \<Rightarrow> world \<Rightarrow> bool \<Rightarrow> usage texgen \<times> faceData list" where
  "rebuildWorld symm s blockID world blockOpaque =
     (case worldFaceData s blockID world blockOpaque of
        (s', faceData) \<Rightarrow>
          (s', map (\<lambda>rot. rotateFaceData symm rot faceData) [0..<COUNT symm]))"

text \<open>\<^verbatim>\<open>rebuildOne(blockID)\<close>, given \<^verbatim>\<open>types[blockID]\<close>. The result is the atlas and
  the entries \<^verbatim>\<open>0 .. COUNT - 1\<close> that it stores in
  \<^verbatim>\<open>rotatedBlockFaceData[blockID]\<close>.\<close>

fun rebuildOne ::
  "cubeSymmetry \<Rightarrow> usage texgen \<Rightarrow> blockType \<Rightarrow> nat \<Rightarrow> usage texgen \<times> faceData list" where
  "rebuildOne symm s (Color color) blockID = rebuildColor (COUNT symm) s blockID color"
| "rebuildOne symm s (World world blockOpaque avg) blockID =
     rebuildWorld symm s blockID world blockOpaque"

section \<open>The block set\<close>

text \<open>The variables of the \<^verbatim>\<open>BlockSet\<close> closure that \<^verbatim>\<open>add\<close> and the
  \<^verbatim>\<open>tileSize\<close> getter use. The variable \<^verbatim>\<open>tileSize\<close> starts as \<^verbatim>\<open>NaN\<close>, which
  is \<open>None\<close>.\<close>

record blockSet =
  bs_tileSize :: "nat option"
  types :: "blockType list"
  rotatedBlockFaceData :: "faceData list list"
  typesToRerender :: "nat list"

text \<open>Modelled from the spec: \<^verbatim>\<open>DirtyQueue\<close> is not defined in blockset.js; the spec
  calls it a deduplicating set, processed in the order of insertion.\<close>

definition enqueue :: "nat list \<Rightarrow> nat \<Rightarrow> nat list" where
  "enqueue q x = (if x \<in> set q then q else q @ [x])"

definition air :: blockType where
  "air = Color (0, 0, 0, 0)"

definition EMPTY_GEOMETRY :: geometry where
  "EMPTY_GEOMETRY = \<lparr>vertices = [], texcoords = []\<rparr>"

definition EMPTY_FACES :: faceData where
  "EMPTY_FACES = (\<lambda>face. Some EMPTY_GEOMETRY)"

definition EMPTY_BLOCKRENDER :: "cubeSymmetry \<Rightarrow> faceData list" where
  "EMPTY_BLOCKRENDER symm = replicate (COUNT symm) EMPTY_FACES"

definition tileSize_getter :: "blockSet \<Rightarrow> nat" where
  "tileSize_getter bs = (case bs_tileSize bs of None \<Rightarrow> 1 | Some t \<Rightarrow> t)"

definition add :: "blockSet \<Rightarrow> blockType \<Rightarrow> blockSet" where
  "add bs newBlockType =
     (let newID = length (types bs);
          bs1 = bs\<lparr>types := types bs @ [newBlockType],
                   rotatedBlockFaceData := rotatedBlockFaceData bs @ [[]],
                   typesToRerender := enqueue (typesToRerender bs) newID\<rparr>
      in case newBlockType of
           Color color \<Rightarrow> bs1
         | World world blockOpaque avg \<Rightarrow>
             (let ts = wx world
              in if bs_tileSize bs1 = Some ts \<or> bs_tileSize bs1 = None
                 then bs1\<lparr>bs_tileSize := Some ts\<rparr>
                 else bs1))"

definition BlockSet :: "cubeSymmetry \<Rightarrow> blockType list \<Rightarrow> blockSet" where
  "BlockSet symm initialTypes =
     foldl add \<lparr>bs_tileSize = None, types = [air],
                rotatedBlockFaceData = [EMPTY_BLOCKRENDER symm], typesToRerender = []\<rparr>
           initialTypes"


section \<open>Properties of the allocator\<close>

text \<open>A well-formed allocator: at least one tile fits in a row of the texture, the
  bitmap is a square of \<open>tileCountSqrt\<close> cells each 0 or 1, the cursor is inside it, and
  the token map is empty while the texture is lost.\<close>

definition allocator_ok :: "'k texgen \<Rightarrow> bool" where
  "allocator_ok s \<longleftrightarrow>
     0 < tileCountSqrt s \<and>
     textureSize s div borderTileSize s = tileCountSqrt s \<and>
     length (tileAllocMap s) = tileCountSqrt s * tileCountSqrt s \<and>
     freePointer s < length (tileAllocMap s) \<and>
     set (tileAllocMap s) \<subseteq> {0, 1} \<and>
     (textureLost s \<longrightarrow> usageMap s = Map.empty)"

text \<open>The bijection between live tokens and occupied cells: every token of the usage
  map is at an occupied cell, no two tokens are at the same cell, and every occupied
  cell holds a token.\<close>

definition bijection :: "'k texgen \<Rightarrow> bool" where
  "bijection s \<longleftrightarrow>
     (\<forall>k i. usageMap s k = Some i \<longrightarrow> i < length (tileAllocMap s) \<and> tileAllocMap s ! i = 1) \<and>
     (\<forall>k k' i. usageMap s k = Some i \<and> usageMap s k' = Some i \<longrightarrow> k = k') \<and>
     (\<forall>i < length (tileAllocMap s). tileAllocMap s ! i = 1 \<longrightarrow> (\<exists>k. usageMap s k = Some i))"

definition atlas_inv :: "'k texgen \<Rightarrow> bool" where
  "atlas_inv s \<longleftrightarrow> allocator_ok s \<and> bijection s"

text \<open>The states an atlas of tile size \<open>tsz\<close> can be in: the constructor's, and after
  any allocation, release, acknowledgement of a lost texture, or store of bytes into an
  image (a store never changes the length of a typed array).\<close>

inductive reachable :: "nat \<Rightarrow> 'k texgen \<Rightarrow> bool" for tsz :: nat where
  r_new: "reachable tsz (Texgen tsz)"
| r_alloc: "reachable tsz s \<Longrightarrow> reachable tsz (fst (allocationFor s k))"
| r_free: "reachable tsz s \<Longrightarrow> reachable tsz (deallocateUsage s k)"
| r_ack: "reachable tsz s \<Longrightarrow> reachable tsz (acknowledge s)"
| r_store: "reachable tsz s \<Longrightarrow> length d = length (data (imageHeap s i)) \<Longrightarrow>
     reachable tsz (s\<lparr>imageHeap := (imageHeap s)(i := (imageHeap s i)\<lparr>data := d\<rparr>)\<rparr>)"

text \<open>The circular scan for a free cell written as a search: the first cell that is
  not occupied among \<open>k\<close> cells from \<open>p\<close> on, wrapping at the end of the bitmap.\<close>

fun scanFree :: "nat list \<Rightarrow> nat \<Rightarrow> nat \<Rightarrow> nat option" where
  "scanFree m p 0 = None"
| "scanFree m p (Suc k) = (if truthyAt m p then scanFree m ((p + 1) mod length m) k else Some p)"

text \<open>The size facts of an atlas of tile size \<open>tsz\<close>.\<close>

definition sized :: "nat \<Rightarrow> 'k texgen \<Rightarrow> bool" where
  "sized tsz s \<longleftrightarrow>
     tileSize s = tsz \<and>
     (\<exists>n\<ge>8. textureSize s = 2 ^ n) \<and>
     width (imageHeap s (image s)) = textureSize s \<and>
     length (data (imageHeap s (image s))) = 4 * textureSize s * textureSize s \<and>
     tileCountSqrt s = textureSize s div (tsz + 2) \<and>
     length (tileAllocMap s) = tileCountSqrt s * tileCountSqrt s"

section \<open>Notions used to state the properties of synthesis\<close>

text \<open>The worlds of the \<^verbatim>\<open>World\<close> block types of a list, in order.\<close>

fun worldsOf :: "blockType list \<Rightarrow> world list" where
  "worldsOf [] = []"
| "worldsOf (Color color # bts) = worldsOf bts"
| "worldsOf (World world blockOpaque avg # bts) = world # worldsOf bts"

text \<open>A flat array of vertices read as its list of corners (three numbers each), and a
  flat array of texture coordinates read as its list of corners (two numbers each).\<close>

fun triples :: "'a list \<Rightarrow> ('a \<times> 'a \<times> 'a) list" where
  "triples (a # b # c # xs) = (a, b, c) # triples xs"
| "triples xs = []"

fun pairs :: "'a list \<Rightarrow> ('a \<times> 'a) list" where
  "pairs (a # b # xs) = (a, b) # pairs xs"
| "pairs xs = []"

definition flat3 :: "('a \<times> 'a \<times> 'a) list \<Rightarrow> 'a list" where
  "flat3 ts = concat (map (\<lambda>(a, b, c). [a, b, c]) ts)"

definition flat2 :: "('a \<times> 'a) list \<Rightarrow> 'a list" where
  "flat2 ps = concat (map (\<lambda>(a, b). [a, b]) ps)"

text \<open>A world all of whose voxels write alpha zero: the alpha byte that
  \<^verbatim>\<open>world.gt(x,y,z).writeColor(255, texData, c)\<close> stores is 0 everywhere.\<close>

definition transparentWorld :: "world \<Rightarrow> bool" where
  "transparentWorld world \<longleftrightarrow>
     (\<forall>x y z. toUint8Clamp (colorComponents (gt world x y z) 255 ! 3) = 0)"

text \<open>Faces that carry no geometry: every face record present has no vertex and no
  texture coordinate.\<close>

definition emptyFaces :: "faceData \<Rightarrow> bool" where
  "emptyFaces fd \<longleftrightarrow> (\<forall>face g. fd face = Some g \<longrightarrow> vertices g = [] \<and> texcoords g = [])"

text \<open>\<open>n\<close> copies of the quad that \<^verbatim>\<open>pushQuad\<close> pushes for a side, a transform and a
  depth. The faces of a dimension hold only outer quads when the low face is some copies
  of the low-side quad at depth 0 (layer 0) and the high face some copies of the
  high-side quad at depth 1 (layer \<open>tileSize - 1\<close>): at most two of each, and at most
  one unless the tile size is 1, where layer 0 is also the last layer and is sliced
  twice. A face that was not stored is \<open>None\<close>.\<close>

definition quadsOf :: "bool \<Rightarrow> mat4 \<Rightarrow> rat \<Rightarrow> nat \<Rightarrow> jsnum list" where
  "quadsOf flipped transform depth n = concat (replicate n (quadVertices flipped transform depth))"

definition outerQuads :: "nat \<Rightarrow> dim \<Rightarrow> mat4 \<Rightarrow> faceData \<Rightarrow> bool" where
  "outerQuads tsz dimName transform fd \<longleftrightarrow>
     (\<exists>nL nH. nL \<le> 2 \<and> nH \<le> 2 \<and> (tsz \<noteq> 1 \<longrightarrow> nL \<le> 1 \<and> nH \<le> 1) \<and>
        (case fd (Lo dimName) of None \<Rightarrow> True
         | Some g \<Rightarrow> vertices g = quadsOf False transform 0 nL \<and> length (texcoords g) = 12 * nL) \<and>
        (case fd (Hi dimName) of None \<Rightarrow> True
         | Some g \<Rightarrow> vertices g = quadsOf True transform 1 nH \<and> length (texcoords g) = 12 * nH))"

section \<open>Notions used to state the properties of the pixels\<close>

text \<open>The image coordinates of the cell with index \<open>i\<close>, as \<^verbatim>\<open>imageCoordsFor\<close>
  computes them from \<^verbatim>\<open>tileCoords\<close>.\<close>

definition tileOrigin :: "'k texgen \<Rightarrow> nat \<Rightarrow> (int \<times> int) option" where
  "tileOrigin s i = map_option (\<lambda>(c0, c1). (1 + int (borderTileSize s) * int c0,
                                  1 + int (borderTileSize s) * int c1)) (tileCoords s i)"

text \<open>The four bytes of the pixel at byte index \<open>c\<close>.\<close>

definition pixelBytes :: "int \<Rightarrow> int set" where
  "pixelBytes c = {c, c + 1, c + 2, c + 3}"

text \<open>The byte index of pixel \<open>(u, v)\<close> of a tile in the loops of \<^verbatim>\<open>rebuildOne\<close>.\<close>

definition pixelIndex :: "int \<times> int \<Rightarrow> nat \<Rightarrow> nat \<times> nat \<Rightarrow> int" where
  "pixelIndex coord texWidth uv =
     ((fst coord + int (fst uv)) * int texWidth + snd coord + int (snd uv)) * 4"

text \<open>The pixel loops on the bytes alone.\<close>

definition slicePixelData :: "world \<Rightarrow> mat4 \<Rightarrow> int \<Rightarrow> nat \<Rightarrow> int \<times> int \<Rightarrow> nat list \<Rightarrow> nat \<times> nat \<Rightarrow> nat list" where
  "slicePixelData world transform layer texWidth coord d uv =
     (let vec = multiplyVec3 transform (int (fst uv), int (snd uv), layer)
      in writeColor (gt world (fst vec) (fst (snd vec)) (snd (snd vec))) 255 d
           (pixelIndex coord texWidth uv))"

definition colorPixelData :: "nat \<Rightarrow> int \<times> int \<Rightarrow> rat \<times> rat \<times> rat \<times> rat \<Rightarrow> nat list \<Rightarrow> nat \<times> nat \<Rightarrow> nat list" where
  "colorPixelData texWidth coord rgba d uv =
     (case rgba of (r, g, b, a) \<Rightarrow>
        (let c = pixelIndex coord texWidth uv
         in wr (wr (wr (wr d (c + 0) (toUint8Clamp r)) (c + 1) (toUint8Clamp g))
                   (c + 2) (toUint8Clamp b)) (c + 3) (toUint8Clamp a)))"

text \<open>The bytes of the pixels of a list.\<close>

definition pixelsBytes :: "int \<times> int \<Rightarrow> nat \<Rightarrow> (nat \<times> nat) list \<Rightarrow> int set" where
  "pixelsBytes coord texWidth uvs = (\<Union>uv \<in> set uvs. pixelBytes (pixelIndex coord texWidth uv))"

text \<open>The positions, relative to a tile, that \<^verbatim>\<open>completed\<close> stores to.\<close>

definition ringXY :: "nat \<Rightarrow> (int \<times> int) set" where
  "ringXY tsz = {(x, y). - 1 \<le> x \<and> x \<le> int tsz \<and> - 1 \<le> y \<and> y \<le> int tsz \<and>
                         (x = - 1 \<or> x = int tsz \<or> y = - 1 \<or> y = int tsz)}"

definition ringBytes :: "int \<times> int \<Rightarrow> nat \<Rightarrow> nat \<Rightarrow> int set" where
  "ringBytes coords w tsz = (\<Union>(x, y) \<in> ringXY tsz. pixelBytes (pix coords w x y))"

text \<open>The cells of an atlas whose side is \<open>w\<close>, with \<open>n\<close> cells of side \<open>b = tsz + 2\<close>
  in a row (\<open>b * n \<le> w\<close>): the origin of cell \<open>(r, c)\<close> is \<open>(1 + b * r, 1 + b * c)\<close>.\<close>

definition cellOrigin :: "nat \<Rightarrow> nat \<Rightarrow> nat \<Rightarrow> int \<times> int" where
  "cellOrigin tsz r c = (1 + int (tsz + 2) * int r, 1 + int (tsz + 2) * int c)"

definition cellBytes :: "nat \<Rightarrow> nat \<Rightarrow> nat \<Rightarrow> nat \<Rightarrow> int set" where
  "cellBytes tsz w r c = pixelsBytes (cellOrigin tsz r c) w (List.product [0..<tsz] [0..<tsz])"


section \<open>A concrete atlas of two colour blocks\<close>

text \<open>The allocator of that atlas after a second token, of colour block 2, has been
  given cell 1, which is row 0, column 1 of the grid of cells.\<close>

definition twoTilesAlloc :: "usage texgen" where
  "twoTilesAlloc = acknowledge (Texgen 1)\<lparr>tileAllocMap := (replicate 7225 0)[0 := 1, 1 := 1], freePointer := 1, 
         usageMap := [ColorUsage 1 \<mapsto> 0, ColorUsage 2 \<mapsto> 1]\<rparr>"

text \<open>Channel \<open>ch\<close> of pixel \<open>(u, v)\<close> of the tile at \<open>coord\<close>, at the byte index at
  which \<^verbatim>\<open>rebuildOne\<close> stores the pixels of a tile: \<open>u\<close> counts image rows and \<open>v\<close>
  image columns, and \<open>- 1\<close> and \<open>tileSize\<close> are the border.\<close>

definition tilePixel :: "nat list \<Rightarrow> nat \<Rightarrow> int \<times> int \<Rightarrow> int \<Rightarrow> int \<Rightarrow> int \<Rightarrow> nat" where
  "tilePixel d texWidth coord u v ch = rd d (((fst coord + u) * int texWidth + snd coord + v) * 4 + ch)"


section \<open>A solid world of side 3\<close>

text \<open>A world of side 3 whose every voxel is the opaque colour \<open>(1, 0, 0, 1)\<close>;
  \<^verbatim>\<open>opaque(x,y,z)\<close> is true inside the world and false outside it.\<close>

definition solidWorld :: world where
  "solidWorld = MkWorld 3 (\<lambda>x y z. Color (1, 0, 0, 1))
                  (\<lambda>x y z. 0 \<le> x \<and> x < 3 \<and> 0 \<le> y \<and> y < 3 \<and> 0 \<le> z \<and> z < 3)"


section \<open>A world block with culled layers\<close>

text \<open>A world of side 2 with two voxels that are not air: at \<open>(0, 0, 0)\<close> a colour with
  red 1 and alpha 0, at \<open>(1, 1, 1)\<close> an opaque green, the only voxel for which
  \<^verbatim>\<open>opaque(x,y,z)\<close> is true. In each dimension layer 0 has alpha 0 everywhere and is
  culled, and layer 1 is visible.\<close>

definition cornerWorld :: world where
  "cornerWorld = MkWorld 2
     (\<lambda>x y z. if x = 0 \<and> y = 0 \<and> z = 0 then Color (1, 0, 0, 0)
               else if x = 1 \<and> y = 1 \<and> z = 1 then Color (0, 1, 0, 1)
               else Color (0, 0, 0, 0))
     (\<lambda>x y z. x = 1 \<and> y = 1 \<and> z = 1)"

text \<open>A stand-in for the cube symmetries (which are defined outside blockset.js): 24
  variants, none a reflection, each leaving the vertices as they are.\<close>

definition noSymmetry :: cubeSymmetry where
  "noSymmetry = \<lparr>applyCubeSymmetry = (\<lambda>rot scale v. v), isReflection = (\<lambda>rot. False), COUNT = 24\<rparr>"

text \<open>The block type of that world (not opaque), and \<^verbatim>\<open>rebuildOne\<close> of it as block 1
  in a new atlas of tile size 2, once and a second time.\<close>

definition cornerBlock :: blockType where
  "cornerBlock = World cornerWorld False (0, 0, 0)"

definition cornerOnce :: "usage texgen \<times> faceData list" where
  "cornerOnce = rebuildOne noSymmetry (acknowledge (Texgen 2)) cornerBlock 1"

definition cornerTwice :: "usage texgen \<times> faceData list" where
  "cornerTwice = rebuildOne noSymmetry (fst cornerOnce) cornerBlock 1"


section \<open>Notions used to state the properties of a slice\<close>

text \<open>The two flags of a slice as a function of the world alone: the test that
  \<^verbatim>\<open>sliceWorld\<close> makes at a pixel, on the alpha byte that it has just stored.\<close>

definition layerFlag :: "world \<Rightarrow> mat4 \<Rightarrow> int \<Rightarrow> bool \<times> bool \<Rightarrow> nat \<times> nat \<Rightarrow> bool \<times> bool" where
  "layerFlag world transform layer flags uv =
     (let viewL = multiplyVec3 transform (0, 0, - 1);
          viewH = multiplyVec3 transform (0, 0, 1);
          vec = multiplyVec3 transform (int (fst uv), int (snd uv), layer)
      in if 0 < toUint8Clamp (colorComponents (gt world (fst vec) (fst (snd vec)) (snd (snd vec))) 255 ! 3)
         then (fst flags \<or>
                 \<not> opaque world (fst vec + fst viewL) (fst (snd vec) + fst (snd viewL))
                                  (snd (snd vec) + snd (snd viewL)),
               snd flags \<or>
                 \<not> opaque world (fst vec + fst viewH) (fst (snd vec) + fst (snd viewH))
                                  (snd (snd vec) + snd (snd viewH)))
         else flags)"

definition layerFlags :: "world \<Rightarrow> mat4 \<Rightarrow> int \<Rightarrow> nat \<Rightarrow> bool \<times> bool" where
  "layerFlags world transform layer tsz =
     foldl (layerFlag world transform layer) (False, False) (List.product [0..<tsz] [0..<tsz])"

text \<open>The bytes after the pixel loop of a slice, and after \<^verbatim>\<open>completed\<close>.\<close>

definition sliceData :: "world \<Rightarrow> mat4 \<Rightarrow> int \<Rightarrow> nat \<Rightarrow> nat \<Rightarrow> int \<times> int \<Rightarrow> nat list \<Rightarrow> nat list" where
  "sliceData world transform layer tsz texWidth coord d =
     foldl (slicePixelData world transform layer texWidth coord) d (List.product [0..<tsz] [0..<tsz])"

definition completedData :: "int \<times> int \<Rightarrow> nat \<Rightarrow> nat \<Rightarrow> nat list \<Rightarrow> nat list" where
  "completedData coords w tsz d = completedColumns coords w tsz (completedRows coords w tsz d)"

text \<open>The arrays of a slice after \<^verbatim>\<open>sliceWorld\<close>, given its two flags, with the texture
  coordinates that the atlas \<open>s\<close> gives.\<close>

definition sliceGeom ::
  "usage texgen \<Rightarrow> bool \<Rightarrow> nat \<Rightarrow> nat \<Rightarrow> dim \<Rightarrow> int \<Rightarrow> mat4 \<Rightarrow> bool \<times> bool \<Rightarrow> sliceArrays \<Rightarrow> sliceArrays" where
  "sliceGeom s blockOpaque blockID tsz dimName layer transform flags arrays =
     (case arrays of (texcoordsL, texcoordsH, verticesL, verticesH) \<Rightarrow>
        if \<not> fst flags \<and> \<not> snd flags then arrays
        else
          (case (if fst flags \<and> (\<not> blockOpaque \<or> layer = 0)
                 then snd (pushQuad s verticesL texcoordsL False transform
                             (of_int layer / of_nat tsz) (SliceUsage blockID dimName layer))
                 else (verticesL, texcoordsL)) of
             (verticesL', texcoordsL') \<Rightarrow>
               (case (if snd flags \<and> (\<not> blockOpaque \<or> layer = int tsz - 1)
                      then snd (pushQuad s verticesH texcoordsH True transform
                                  (of_int (layer + 1) / of_nat tsz) (SliceUsage blockID dimName layer))
                      else (verticesH, texcoordsH)) of
                  (verticesH', texcoordsH') \<Rightarrow>
                    (texcoordsL', texcoordsH', verticesL', verticesH'))))"

text \<open>An atlas in which \<^verbatim>\<open>rebuildOne\<close> works on the current image: not lost, with the
  image and the width that \<^verbatim>\<open>rebuildOne\<close> read at its start.\<close>

definition good :: "nat \<Rightarrow> nat \<Rightarrow> nat \<Rightarrow> usage texgen \<Rightarrow> bool" where
  "good tsz texImg texWidth s \<longleftrightarrow>
     atlas_inv s \<and> \<not> textureLost s \<and> tileSize s = tsz \<and> image s = texImg \<and>
     textureSize s = texWidth \<and> width (imageHeap s texImg) = texWidth \<and>
     length (data (imageHeap s texImg)) = 4 * texWidth * texWidth"

text \<open>The cell with index \<open>i\<close> of an atlas of tile size \<open>tsz\<close> and side \<open>tw\<close>: its image
  coordinates and the bytes of its \<open>tsz * tsz\<close> interior pixels.\<close>

definition tileCoord :: "nat \<Rightarrow> nat \<Rightarrow> nat \<Rightarrow> int \<times> int" where
  "tileCoord tsz tw i = cellOrigin tsz (i div (tw div (tsz + 2))) (i mod (tw div (tsz + 2)))"

definition tileBytes :: "nat \<Rightarrow> nat \<Rightarrow> nat \<Rightarrow> int set" where
  "tileBytes tsz tw i = cellBytes tsz tw (i div (tw div (tsz + 2))) (i mod (tw div (tsz + 2)))"

text \<open>The three fields of the atlas that \<^verbatim>\<open>uvFor\<close> and \<^verbatim>\<open>calcTexCoords\<close> read.\<close>

definition uvFields :: "'k texgen \<Rightarrow> rat \<times> rat \<times> rat" where
  "uvFields s = (tileUVSize s, borderUVOffset s, borderTileUVSize s)"

text \<open>The transform that \<^verbatim>\<open>TILE_MAPPINGS\<close> gives for a dimension.\<close>

definition tileMapping :: "dim \<Rightarrow> mat4" where
  "tileMapping dimName = the (map_of TILE_MAPPINGS dimName)"

text \<open>The slice \<open>(dimName, layer)\<close> of a block is settled in an atlas when, if one of its
  flags is set, its token has a cell whose interior already holds the pixels of the
  slice (storing them again changes no byte of it), and when, if none is set, its token
  is not in the usage map.\<close>

definition sliceStable :: "world \<Rightarrow> nat \<Rightarrow> nat \<Rightarrow> dim \<Rightarrow> int \<Rightarrow> nat \<Rightarrow> nat list \<Rightarrow> bool" where
  "sliceStable world tsz tw dimName layer i d \<longleftrightarrow>
     (\<forall>p \<in> tileBytes tsz tw i.
        rd (sliceData world (tileMapping dimName) layer tsz tw (tileCoord tsz tw i) d) p = rd d p)"

definition sliceOK :: "world \<Rightarrow> nat \<Rightarrow> nat \<Rightarrow> nat \<Rightarrow> nat \<Rightarrow> usage texgen \<Rightarrow> dim \<times> int \<Rightarrow> bool" where
  "sliceOK world blockID tsz ti tw s x =
     (case x of (dimName, layer) \<Rightarrow>
        (if fst (layerFlags world (tileMapping dimName) layer tsz) \<or>
            snd (layerFlags world (tileMapping dimName) layer tsz)
         then (\<exists>i. usageMap s (SliceUsage blockID dimName layer) = Some i \<and>
                    sliceStable world tsz tw dimName layer i (data (imageHeap s ti)))
         else usageMap s (SliceUsage blockID dimName layer) = None))"

text \<open>Two atlases with the same tokens at the same cells, the same bitmap, and the same
  bytes in the interior of every occupied cell.\<close>

definition sameTiles :: "nat \<Rightarrow> nat \<Rightarrow> nat \<Rightarrow> usage texgen \<Rightarrow> usage texgen \<Rightarrow> bool" where
  "sameTiles tsz ti tw s s' \<longleftrightarrow>
     usageMap s' = usageMap s \<and> tileAllocMap s' = tileAllocMap s \<and> uvFields s' = uvFields s \<and>
     (\<forall>i < length (tileAllocMap s). tileAllocMap s ! i = 1 \<longrightarrow>
        (\<forall>p \<in> tileBytes tsz tw i. rd (data (imageHeap s' ti)) p = rd (data (imageHeap s ti)) p))"

text \<open>The layers that \<^verbatim>\<open>rebuildOne\<close> slices in a dimension: the first and the last for an
  opaque block, all of them otherwise.\<close>

definition layersOf :: "bool \<Rightarrow> nat \<Rightarrow> int list" where
  "layersOf blockOpaque tsz = (if blockOpaque then [0, int tsz - 1] else map int [0..<tsz])"

text \<open>The geometry of a world block as a function of the atlas it ends in: the arrays of a
  dimension and the canonical faces.\<close>

definition dimGeom :: "world \<Rightarrow> bool \<Rightarrow> nat \<Rightarrow> nat \<Rightarrow> usage texgen \<Rightarrow> dim \<Rightarrow> sliceArrays" where
  "dimGeom world blockOpaque blockID tsz s dimName =
     foldl (\<lambda>arr layer. sliceGeom s blockOpaque blockID tsz dimName layer (tileMapping dimName)
                          (layerFlags world (tileMapping dimName) layer tsz) arr)
           ([], [], [], []) (layersOf blockOpaque tsz)"

definition worldGeom :: "world \<Rightarrow> bool \<Rightarrow> nat \<Rightarrow> nat \<Rightarrow> usage texgen \<Rightarrow> faceData" where
  "worldGeom world blockOpaque blockID tsz s =
     foldl (\<lambda>fd dimName. storeFaces fd dimName (dimGeom world blockOpaque blockID tsz s dimName))
           Map.empty [DimZ, DimX, DimY]"

text \<open>Every slice that \<^verbatim>\<open>rebuildOne\<close> makes of a world block is settled in the atlas.\<close>

definition settled :: "world \<Rightarrow> bool \<Rightarrow> nat \<Rightarrow> nat \<Rightarrow> nat \<Rightarrow> nat \<Rightarrow> usage texgen \<Rightarrow> bool" where
  "settled world blockOpaque blockID tsz ti tw s \<longleftrightarrow>
     (\<forall>d. \<forall>l \<in> set (layersOf blockOpaque tsz). sliceOK world blockID tsz ti tw s (d, l))"

text \<open>The bytes after the pixel loop of a colour block.\<close>

definition colorData :: "rat \<times> rat \<times> rat \<times> rat \<Rightarrow> nat \<Rightarrow> nat \<Rightarrow> int \<times> int \<Rightarrow> nat list \<Rightarrow> nat list" where
  "colorData rgba tsz texWidth coord d =
     foldl (colorPixelData texWidth coord rgba) d (List.product [0..<tsz] [0..<tsz])"

text \<open>The colour that \<^verbatim>\<open>rebuildOne\<close> stores for a colour block.\<close>

definition scaledColor :: "rat \<times> rat \<times> rat \<times> rat \<Rightarrow> rat \<times> rat \<times> rat \<times> rat" where
  "scaledColor color = (case color of (c0, c1, c2, c3) \<Rightarrow> (255 * c0, 255 * c1, 255 * c2, 255 * c3))"

text \<open>An atlas that is not lost, with its bitmap, its cursor and its usage map.\<close>

definition tracked ::
  "nat \<Rightarrow> nat \<Rightarrow> nat \<Rightarrow> usage texgen \<Rightarrow> nat list \<Rightarrow> nat \<Rightarrow> (usage \<rightharpoonup> nat) \<Rightarrow> bool" where
  "tracked tsz ti tw s m fp um \<longleftrightarrow>
     good tsz ti tw s \<and> tileAllocMap s = m \<and> freePointer s = fp \<and> usageMap s = um"

text \<open>An atlas in whose texture no bordered tile fits: it is not lost, and its bitmap has
  no cell.\<close>

definition flat :: "'k texgen \<Rightarrow> bool" where
  "flat s \<longleftrightarrow> \<not> textureLost s \<and> tileCountSqrt s = 0 \<and> tileAllocMap s = []"

text \<open>The atlas without the tokens of a set.\<close>

definition dropTokens :: "'k texgen \<Rightarrow> 'k set \<Rightarrow> 'k texgen" where
  "dropTokens s S = s\<lparr>usageMap := (\<lambda>k. if k \<in> S then None else usageMap s k)\<rparr>"


section \<open>The allocator: proofs\<close>

lemma enlargeTexture_freePointer [simp]:
  "enlargeTexture (s\<lparr>freePointer := p\<rparr>) = enlargeTexture s"
  by (simp add: enlargeTexture_def borderTileSize_def Let_def)

lemma tileAlloc_loop_scan:
  "n < length (tileAllocMap s) \<Longrightarrow>
   tileAlloc_loop s n =
     (case scanFree (tileAllocMap s) (freePointer s) (length (tileAllocMap s) - n) of
        None \<Rightarrow> (enlargeTexture s, 0, True)
      | Some idx \<Rightarrow> (s\<lparr>tileAllocMap := (tileAllocMap s)[idx := 1], freePointer := idx\<rparr>, idx, False))"
proof (induction s n rule: tileAlloc_loop.induct)
  case (1 s n)
  let ?L = "length (tileAllocMap s)"
  from "1.prems" obtain k where k: "?L - n = Suc k" by (cases "?L - n") auto
  show ?case
  proof (cases "truthyAt (tileAllocMap s) (freePointer s)")
    case False
    then show ?thesis using k by (subst tileAlloc_loop.simps) simp
  next
    case True
    show ?thesis
    proof (cases "Suc n \<ge> ?L")
      case True
      with k have "k = 0" by simp
      with \<open>truthyAt _ _\<close> True k show ?thesis by (subst tileAlloc_loop.simps) simp
    next
      case False
      then have lt: "Suc n < ?L" by simp
      have k': "?L - Suc n = k" using k by simp
      have "tileAlloc_loop s n = tileAlloc_loop (s\<lparr>freePointer := (freePointer s + 1) mod ?L\<rparr>) (Suc n)"
        using True False by (subst tileAlloc_loop.simps) simp
      also have "\<dots> = (case scanFree (tileAllocMap s) ((freePointer s + 1) mod ?L) k of
        None \<Rightarrow> (enlargeTexture s, 0, True)
      | Some idx \<Rightarrow> (s\<lparr>tileAllocMap := (tileAllocMap s)[idx := 1], freePointer := idx\<rparr>, idx, False))"
        using "1.IH"[OF True False] lt k' by (simp split: option.splits)
      finally show ?thesis using True k by simp
    qed
  qed
qed

lemma tileAlloc_loop_empty:
  "tileAllocMap s = [] \<Longrightarrow> tileAlloc_loop s n = (s, freePointer s, False)"
  by (subst tileAlloc_loop.simps) (simp add: truthyAt_def)


lemma scanFree_Some:
  "scanFree m p k = Some i \<Longrightarrow>
   \<exists>j<k. i = (p + j) mod length m \<and> \<not> truthyAt m i \<and> (\<forall>j'<j. truthyAt m ((p + j') mod length m))" if "p < length m"
  using that
proof (induction k arbitrary: p)
  case 0
  then show ?case by simp
next
  case (Suc k)
  show ?case
  proof (cases "truthyAt m p")
    case False
    with Suc.prems have "i = p" by simp
    with False Suc.prems(2) show ?thesis by (intro exI[of _ 0]) simp
  next
    case True
    let ?q = "(p + 1) mod length m"
    have q: "?q < length m" using Suc.prems(2) by (intro mod_less_divisor) auto
    from True Suc.prems have "scanFree m ?q k = Some i" by simp
    from Suc.IH[OF this q] obtain j where j: "j < k" "i = (?q + j) mod length m"
      "\<not> truthyAt m i" "\<forall>j'<j. truthyAt m ((?q + j') mod length m)" by blast
    have shift: "(?q + x) mod length m = (p + Suc x) mod length m" for x
      by (simp add: mod_add_left_eq)
    have "\<forall>j'<Suc j. truthyAt m ((p + j') mod length m)"
    proof (intro allI impI)
      fix j' assume "j' < Suc j"
      show "truthyAt m ((p + j') mod length m)"
      proof (cases j')
        case 0
        then show ?thesis using True Suc.prems(2) by simp
      next
        case (Suc x)
        with \<open>j' < Suc j\<close> j(4) shift show ?thesis by auto
      qed
    qed
    with j shift show ?thesis by (intro exI[of _ "Suc j"]) auto
  qed
qed

lemma scanFree_None:
  "scanFree m p k = None \<Longrightarrow> p < length m \<Longrightarrow> j < k \<Longrightarrow> truthyAt m ((p + j) mod length m)"
proof (induction k arbitrary: p j)
  case 0
  then show ?case by simp
next
  case (Suc k)
  from Suc.prems(1) have t: "truthyAt m p" and r: "scanFree m ((p + 1) mod length m) k = None"
    by (auto split: if_splits)
  show ?case
  proof (cases j)
    case 0
    then show ?thesis using t Suc.prems(2) by simp
  next
    case (Suc x)
    with Suc.prems(3) have "x < k" by simp
    have "(p + 1) mod length m < length m" using Suc.prems(2) by (intro mod_less_divisor) auto
    from Suc.IH[OF r this \<open>x < k\<close>]
    have "truthyAt m (((p + 1) mod length m + x) mod length m)" .
    then show ?thesis using Suc by (simp add: mod_add_left_eq)
  qed
qed

lemma scanFree_None_all:
  assumes "scanFree m p (length m) = None" "p < length m" "i < length m"
  shows "truthyAt m i"
proof -
  let ?L = "length m"
  let ?j = "(i + ?L - p) mod ?L"
  have "?j < ?L" using assms(3) by (intro mod_less_divisor) auto
  from scanFree_None[OF assms(1,2) this] have "truthyAt m ((p + ?j) mod ?L)" .
  moreover have "(p + ?j) mod ?L = i"
  proof -
    have "(p + ?j) mod ?L = (p + (i + ?L - p)) mod ?L" by (simp add: mod_add_right_eq)
    also have "\<dots> = (i + ?L) mod ?L" using assms(2,3) by simp
    also have "\<dots> = i" using assms(3) by simp
    finally show ?thesis .
  qed
  ultimately show ?thesis by simp
qed


lemma bijection_fresh:
  "usageMap s = Map.empty \<Longrightarrow> tileAllocMap s = replicate n 0 \<Longrightarrow> bijection s"
  by (simp add: bijection_def)

lemma enlargeTexture_ok:
  assumes "0 < tileCountSqrt s" "textureSize s div borderTileSize s = tileCountSqrt s"
  shows "allocator_ok (enlargeTexture s)"
proof -
  let ?b = "borderTileSize s"
  have b: "0 < ?b" by (simp add: borderTileSize_def)
  have "textureSize s div ?b \<le> (textureSize s * 2) div ?b"
    by (intro div_le_mono) simp
  with assms have pos: "0 < (textureSize s * 2) div ?b" by simp
  then show ?thesis
    by (simp add: allocator_ok_def enlargeTexture_def Let_def borderTileSize_def)
qed

lemma enlargeTexture_inv: "atlas_inv s \<Longrightarrow> atlas_inv (enlargeTexture s)"
  unfolding atlas_inv_def
proof
  assume a: "allocator_ok s \<and> bijection s"
  then show "allocator_ok (enlargeTexture s)"
    by (intro enlargeTexture_ok) (simp_all add: allocator_ok_def)
  show "bijection (enlargeTexture s)"
    by (rule bijection_fresh[where n = "(textureSize s * 2 div borderTileSize s) * (textureSize s * 2 div borderTileSize s)"])
       (simp_all add: enlargeTexture_def Let_def)
qed

lemma Texgen_inv: "tsz + 2 \<le> 256 \<Longrightarrow> atlas_inv (Texgen tsz :: 'k texgen)"
proof -
  assume le: "tsz + 2 \<le> 256"
  have "1 \<le> 256 div (tsz + 2)" using le
    by (metis div_le_mono div_self add_is_0 zero_neq_numeral)
  then have pos: "0 < 256 div (tsz + 2)" by simp
  have ok: "allocator_ok (Texgen tsz :: 'k texgen)" using pos
    by (simp add: allocator_ok_def Texgen_def enlargeTexture_def Let_def borderTileSize_def)
  have "bijection (Texgen tsz :: 'k texgen)"
    by (rule bijection_fresh[where n = "(256 div (tsz + 2)) * (256 div (tsz + 2))"])
       (simp_all add: Texgen_def enlargeTexture_def Let_def borderTileSize_def)
  with ok show ?thesis by (simp add: atlas_inv_def)
qed


lemma truthyAt_ok:
  "set m \<subseteq> {0, 1} \<Longrightarrow> i < length m \<Longrightarrow> truthyAt m i \<longleftrightarrow> m ! i = 1"
  by (auto simp: truthyAt_def dest: nth_mem)

lemma tileAlloc_found:
  assumes ok: "allocator_ok s" and free: "\<exists>i < length (tileAllocMap s). tileAllocMap s ! i = 0"
  shows "\<exists>j < length (tileAllocMap s).
           tileAllocMap s ! ((freePointer s + j) mod length (tileAllocMap s)) = 0 \<and>
           (\<forall>j' < j. tileAllocMap s ! ((freePointer s + j') mod length (tileAllocMap s)) = 1) \<and>
           tileAlloc s =
             (s\<lparr>tileAllocMap := (tileAllocMap s)[(freePointer s + j) mod length (tileAllocMap s) := 1],
                freePointer := (freePointer s + j) mod length (tileAllocMap s)\<rparr>,
              (freePointer s + j) mod length (tileAllocMap s), False)"
proof -
  let ?m = "tileAllocMap s" and ?p = "freePointer s"
  let ?L = "length ?m"
  from ok have p: "?p < ?L" and bits: "set ?m \<subseteq> {0, 1}" unfolding allocator_ok_def by blast+
  then have L: "0 < ?L" by auto
  have eq: "tileAlloc s = (case scanFree ?m ?p ?L of
        None \<Rightarrow> (enlargeTexture s, 0, True)
      | Some idx \<Rightarrow> (s\<lparr>tileAllocMap := ?m[idx := 1], freePointer := idx\<rparr>, idx, False))"
    unfolding tileAlloc_def using tileAlloc_loop_scan[of 0 s] L by simp
  show ?thesis
  proof (cases "scanFree ?m ?p ?L")
    case None
    from free obtain i where i: "i < ?L" "?m ! i = 0" by blast
    from scanFree_None_all[OF None p i(1)] i show ?thesis by (simp add: truthyAt_def)
  next
    case (Some idx)
    from scanFree_Some[OF p Some] obtain j where j: "j < ?L" "idx = (?p + j) mod ?L"
      "\<not> truthyAt ?m idx" "\<forall>j'<j. truthyAt ?m ((?p + j') mod ?L)" by blast
    have idx: "idx < ?L" using j(2) L by simp
    have z: "?m ! idx = 0" using j(3) idx by (simp add: truthyAt_def)
    have ones: "\<forall>j'<j. ?m ! ((?p + j') mod ?L) = 1"
    proof (intro allI impI)
      fix j' assume "j' < j"
      with j(4) have "truthyAt ?m ((?p + j') mod ?L)" by blast
      moreover have "(?p + j') mod ?L < ?L" using L by simp
      ultimately show "?m ! ((?p + j') mod ?L) = 1" using truthyAt_ok[OF bits] by blast
    qed
    show ?thesis using j(1,2) z ones eq Some by (intro exI[of _ j]) simp
  qed
qed

lemma tileAlloc_exhausted:
  assumes ok: "allocator_ok s" and full: "\<forall>i < length (tileAllocMap s). tileAllocMap s ! i \<noteq> 0"
  shows "tileAlloc s = (enlargeTexture s, 0, True)"
proof -
  let ?m = "tileAllocMap s" and ?p = "freePointer s"
  let ?L = "length ?m"
  from ok have p: "?p < ?L" unfolding allocator_ok_def by blast
  then have L: "0 < ?L" by auto
  have eq: "tileAlloc s = (case scanFree ?m ?p ?L of
        None \<Rightarrow> (enlargeTexture s, 0, True)
      | Some idx \<Rightarrow> (s\<lparr>tileAllocMap := ?m[idx := 1], freePointer := idx\<rparr>, idx, False))"
    unfolding tileAlloc_def using tileAlloc_loop_scan[of 0 s] L by simp
  show ?thesis
  proof (cases "scanFree ?m ?p ?L")
    case None
    with eq show ?thesis by simp
  next
    case (Some idx)
    from scanFree_Some[OF p Some] obtain j where "idx = (?p + j) mod ?L" "\<not> truthyAt ?m idx" by blast
    moreover from this L have "idx < ?L" by simp
    ultimately show ?thesis using full by (simp add: truthyAt_def)
  qed
qed


lemma allocate_step_inv:
  assumes inv: "atlas_inv s" and nl: "\<not> textureLost s" and fresh: "usageMap s k = None"
    and idx: "idx < length (tileAllocMap s)" and z: "tileAllocMap s ! idx = 0"
  shows "atlas_inv (s\<lparr>tileAllocMap := (tileAllocMap s)[idx := 1], freePointer := idx,
                     usageMap := (usageMap s)(k \<mapsto> idx)\<rparr>)"
proof -
  let ?s' = "s\<lparr>tileAllocMap := (tileAllocMap s)[idx := 1], freePointer := idx,
                     usageMap := (usageMap s)(k \<mapsto> idx)\<rparr>"
  from inv have ok: "allocator_ok s" and bij: "bijection s" by (simp_all add: atlas_inv_def)
  have bits: "set ((tileAllocMap s)[idx := 1]) \<subseteq> {0, 1}"
    using ok set_update_subset_insert[of "tileAllocMap s" idx 1]
    unfolding allocator_ok_def by blast
  have ok': "allocator_ok ?s'"
    using ok idx bits nl unfolding allocator_ok_def borderTileSize_def by simp
  have none_idx: "usageMap s k' \<noteq> Some idx" for k'
    using bij idx z unfolding bijection_def by (metis zero_neq_one)
  have b1: "\<forall>k' i. usageMap ?s' k' = Some i \<longrightarrow>
              i < length (tileAllocMap ?s') \<and> tileAllocMap ?s' ! i = 1"
    using bij idx unfolding bijection_def
    by (auto simp: nth_list_update split: if_splits)
  have b2: "\<forall>k1 k2 i. usageMap ?s' k1 = Some i \<and> usageMap ?s' k2 = Some i \<longrightarrow> k1 = k2"
    using bij none_idx unfolding bijection_def
    by (auto split: if_splits)
  have b3: "\<forall>i < length (tileAllocMap ?s'). tileAllocMap ?s' ! i = 1 \<longrightarrow>
              (\<exists>k'. usageMap ?s' k' = Some i)"
  proof (intro allI impI)
    fix i assume i: "i < length (tileAllocMap ?s')" and one: "tileAllocMap ?s' ! i = 1"
    show "\<exists>k'. usageMap ?s' k' = Some i"
    proof (cases "i = idx")
      case True
      then show ?thesis by (intro exI[of _ k]) simp
    next
      case False
      with i one have "i < length (tileAllocMap s)" "tileAllocMap s ! i = 1" by simp_all
      with bij obtain k' where k': "usageMap s k' = Some i" unfolding bijection_def by blast
      with fresh have "k' \<noteq> k" by auto
      with k' show ?thesis by (intro exI[of _ k']) simp
    qed
  qed
  from b1 b2 b3 have "bijection ?s'" unfolding bijection_def by blast
  with ok' show ?thesis by (simp add: atlas_inv_def)
qed

lemma allocationFor_inv: "atlas_inv s \<Longrightarrow> atlas_inv (fst (allocationFor s k))"
proof -
  assume inv: "atlas_inv s"
  then have ok: "allocator_ok s" by (simp add: atlas_inv_def)
  show ?thesis
  proof (cases "textureLost s \<or> usageMap s k \<noteq> None")
    case True
    with inv show ?thesis by (auto simp: allocationFor_def)
  next
    case False
    then have nl: "\<not> textureLost s" and fresh: "usageMap s k = None" by simp_all
    show ?thesis
    proof (cases "\<exists>i < length (tileAllocMap s). tileAllocMap s ! i = 0")
      case True
      from tileAlloc_found[OF ok True] obtain j where
        j: "j < length (tileAllocMap s)"
           "tileAllocMap s ! ((freePointer s + j) mod length (tileAllocMap s)) = 0"
           "tileAlloc s =
             (s\<lparr>tileAllocMap := (tileAllocMap s)[(freePointer s + j) mod length (tileAllocMap s) := 1],
                freePointer := (freePointer s + j) mod length (tileAllocMap s)\<rparr>,
              (freePointer s + j) mod length (tileAllocMap s), False)" by blast
      let ?idx = "(freePointer s + j) mod length (tileAllocMap s)"
      have "?idx < length (tileAllocMap s)" using j(1) by (intro mod_less_divisor) auto
      from allocate_step_inv[OF inv nl fresh this j(2)] show ?thesis
        using nl fresh j(3) by (simp add: allocationFor_def Let_def)
    next
      case False
      then have "\<forall>i < length (tileAllocMap s). tileAllocMap s ! i \<noteq> 0" by simp
      from tileAlloc_exhausted[OF ok this] enlargeTexture_inv[OF inv] show ?thesis
        using nl fresh by (simp add: allocationFor_def Let_def)
    qed
  qed
qed

lemma deallocateUsage_inv: "atlas_inv s \<Longrightarrow> atlas_inv (deallocateUsage s k)"
proof -
  assume inv: "atlas_inv s"
  then have ok: "allocator_ok s" and bij: "bijection s" by (simp_all add: atlas_inv_def)
  show ?thesis
  proof (cases "textureLost s")
    case True
    with inv show ?thesis by (simp add: deallocateUsage_def)
  next
    case nl: False
    show ?thesis
    proof (cases "usageMap s k")
      case None
      then have "(usageMap s)(k := None) = usageMap s" by auto
      then have "deallocateUsage s k = s" using nl None by (simp add: deallocateUsage_def)
      with inv show ?thesis by simp
    next
      case (Some idx)
      let ?s' = "s\<lparr>tileAllocMap := (tileAllocMap s)[idx := 0], usageMap := (usageMap s)(k := None)\<rparr>"
      have eq: "deallocateUsage s k = ?s'" using nl Some by (simp add: deallocateUsage_def tileFree_def)
      have bits: "set ((tileAllocMap s)[idx := 0]) \<subseteq> {0, 1}"
        using ok set_update_subset_insert[of "tileAllocMap s" idx 0]
        unfolding allocator_ok_def by blast
      have ok': "allocator_ok ?s'"
        using ok bits nl unfolding allocator_ok_def borderTileSize_def by simp
      have idx: "idx < length (tileAllocMap s)" using bij Some unfolding bijection_def by blast
      have other: "usageMap s k' = Some i \<Longrightarrow> k' \<noteq> k \<Longrightarrow> i \<noteq> idx" for k' i
        using bij Some unfolding bijection_def by blast
      have b1: "\<forall>k' i. usageMap ?s' k' = Some i \<longrightarrow>
              i < length (tileAllocMap ?s') \<and> tileAllocMap ?s' ! i = 1"
      proof (intro allI impI)
        fix k' i assume "usageMap ?s' k' = Some i"
        then have k': "k' \<noteq> k" "usageMap s k' = Some i" by (auto split: if_splits)
        with other have "i \<noteq> idx" by blast
        moreover from bij k' have "i < length (tileAllocMap s)" "tileAllocMap s ! i = 1"
          unfolding bijection_def by blast+
        ultimately show "i < length (tileAllocMap ?s') \<and> tileAllocMap ?s' ! i = 1" by simp
      qed
      have b2: "\<forall>k1 k2 i. usageMap ?s' k1 = Some i \<and> usageMap ?s' k2 = Some i \<longrightarrow> k1 = k2"
        using bij unfolding bijection_def by (auto split: if_splits)
      have b3: "\<forall>i < length (tileAllocMap ?s'). tileAllocMap ?s' ! i = 1 \<longrightarrow>
              (\<exists>k'. usageMap ?s' k' = Some i)"
      proof (intro allI impI)
        fix i assume i: "i < length (tileAllocMap ?s')" and one: "tileAllocMap ?s' ! i = 1"
        then have ne: "i \<noteq> idx" by (auto simp: nth_list_update split: if_splits)
        with i one have "i < length (tileAllocMap s)" "tileAllocMap s ! i = 1" by simp_all
        with bij obtain k' where k': "usageMap s k' = Some i" unfolding bijection_def by blast
        with Some ne have "k' \<noteq> k" by auto
        with k' show "\<exists>k'. usageMap ?s' k' = Some i" by (intro exI[of _ k']) simp
      qed
      from b1 b2 b3 have "bijection ?s'" unfolding bijection_def by blast
      with ok' eq show ?thesis by (simp add: atlas_inv_def)
    qed
  qed
qed

lemma acknowledge_inv: "atlas_inv s \<Longrightarrow> atlas_inv (acknowledge s)"
  unfolding atlas_inv_def allocator_ok_def bijection_def acknowledge_def borderTileSize_def
  by auto


lemma tileAlloc_loop_cases:
  "(tileAlloc_loop s n = (enlargeTexture s, 0, True)) \<or>
   (\<exists>p. tileAlloc_loop s n =
      (s\<lparr>tileAllocMap := (tileAllocMap s)[p := 1], freePointer := p\<rparr>, p, False))"
proof (induction s n rule: tileAlloc_loop.induct)
  case (1 s n)
  show ?case
  proof (cases "truthyAt (tileAllocMap s) (freePointer s)")
    case False
    then have "tileAlloc_loop s n =
      (s\<lparr>tileAllocMap := (tileAllocMap s)[freePointer s := 1], freePointer := freePointer s\<rparr>,
       freePointer s, False)"
      by (subst tileAlloc_loop.simps) simp
    then show ?thesis by blast
  next
    case True
    show ?thesis
    proof (cases "Suc n \<ge> length (tileAllocMap s)")
      case True
      with \<open>truthyAt _ _\<close> show ?thesis by (subst tileAlloc_loop.simps) simp
    next
      case False
      let ?s' = "s\<lparr>freePointer := (freePointer s + 1) mod length (tileAllocMap s)\<rparr>"
      have eq: "tileAlloc_loop s n = tileAlloc_loop ?s' (Suc n)"
        using True False by (subst tileAlloc_loop.simps) simp
      from "1.IH"[OF True False] show ?thesis unfolding eq by auto
    qed
  qed
qed

lemma allocationFor_cases:
  "fst (allocationFor s k) = s \<or>
   fst (allocationFor s k) = enlargeTexture s \<or>
   (\<exists>p. fst (allocationFor s k) =
      s\<lparr>tileAllocMap := (tileAllocMap s)[p := 1], freePointer := p,
         usageMap := (usageMap s)(k \<mapsto> p)\<rparr>)"
  using tileAlloc_loop_cases[of s 0]
  by (auto simp: allocationFor_def tileAlloc_def Let_def split: option.splits)

lemma sized_enlarge: "sized tsz s \<Longrightarrow> sized tsz (enlargeTexture s)"
proof -
  assume a: "sized tsz s"
  then obtain n where n: "8 \<le> n" "textureSize s = 2 ^ n" unfolding sized_def by blast
  have "8 \<le> Suc n \<and> textureSize s * 2 = 2 ^ Suc n" using n by simp
  then have "\<exists>m\<ge>8. textureSize s * 2 = 2 ^ m" by blast
  with a show ?thesis
    unfolding sized_def
    by (simp add: enlargeTexture_def Let_def borderTileSize_def createImageData_def)
qed

lemma sized_Texgen: "sized tsz (Texgen tsz)"
proof -
  have "\<exists>n\<ge>8. (256::nat) = 2 ^ n" by (intro exI[of _ 8]) simp
  then show ?thesis
    unfolding sized_def
    by (simp add: Texgen_def enlargeTexture_def Let_def borderTileSize_def createImageData_def)
qed

lemma reachable_sized: "reachable tsz s \<Longrightarrow> sized tsz s"
proof (induction rule: reachable.induct)
  case r_new
  show ?case by (rule sized_Texgen)
next
  case (r_alloc s k)
  from allocationFor_cases[of s k] show ?case
  proof (elim disjE exE)
    assume "fst (allocationFor s k) = s"
    with r_alloc.IH show ?thesis by simp
  next
    assume "fst (allocationFor s k) = enlargeTexture s"
    with sized_enlarge[OF r_alloc.IH] show ?thesis by simp
  next
    fix p
    assume "fst (allocationFor s k) =
      s\<lparr>tileAllocMap := (tileAllocMap s)[p := 1], freePointer := p,
         usageMap := (usageMap s)(k \<mapsto> p)\<rparr>"
    with r_alloc.IH show ?thesis by (simp add: sized_def)
  qed
next
  case (r_free s k)
  then show ?case
    by (auto simp: sized_def deallocateUsage_def tileFree_def Let_def split: option.splits)
next
  case (r_ack s)
  then show ?case by (simp add: sized_def acknowledge_def)
next
  case (r_store s d i)
  then show ?case by (auto simp: sized_def)
qed

lemma store_inv:
  "atlas_inv s \<Longrightarrow> atlas_inv (s\<lparr>imageHeap := h\<rparr>)"
  unfolding atlas_inv_def allocator_ok_def bijection_def borderTileSize_def by auto

lemma reachable_inv: "reachable tsz s \<Longrightarrow> tsz + 2 \<le> 256 \<Longrightarrow> atlas_inv s"
proof (induction rule: reachable.induct)
  case r_new
  then show ?case by (rule Texgen_inv)
next
  case (r_alloc s k)
  then show ?case by (simp add: allocationFor_inv)
next
  case (r_free s k)
  then show ?case by (simp add: deallocateUsage_inv)
next
  case (r_ack s)
  then show ?case by (simp add: acknowledge_inv)
next
  case (r_store s d i)
  then show ?case by (simp add: store_inv)
qed

text \<open>
  The bijection in an atlas whose bitmap has a cell. For every atlas in whose initial
  texture at least one bordered tile fits (\<open>tsz + 2 \<le> 256\<close>), in every state the atlas
  can reach, the tokens of the usage map and the cells of the bitmap that hold 1 are in
  one-to-one correspondence (every token is at an occupied cell, no two tokens share a
  cell, every occupied cell holds a token), and the correspondence still holds after any
  \<^verbatim>\<open>allocationFor\<close>, any \<^verbatim>\<open>deallocateUsage\<close> and \<^verbatim>\<open>enlargeTexture\<close>.
\<close>

lemma bijection_reachable:
  assumes "tsz + 2 \<le> 256" and "reachable tsz s"
  shows "bijection s \<and> bijection (fst (allocationFor s k)) \<and>
         bijection (deallocateUsage s k) \<and> bijection (enlargeTexture s)"
proof -
  from reachable_inv[OF assms(2,1)] have inv: "atlas_inv s" .
  from inv allocationFor_inv[OF inv, of k] deallocateUsage_inv[OF inv, of k] enlargeTexture_inv[OF inv]
  show ?thesis by (simp add: atlas_inv_def)
qed

lemma bijection_reachable_example:
  "(126::nat) + 2 \<le> 256 \<and>
   reachable 126 (fst (allocationFor (acknowledge (Texgen 126)) (ColorUsage 1))) \<and>
   usageMap (fst (allocationFor (acknowledge (Texgen 126)) (ColorUsage 1))) (ColorUsage 1) = Some 0 \<and>
   tileAllocMap (fst (allocationFor (acknowledge (Texgen 126)) (ColorUsage 1))) = [1, 0, 0, 0] \<and>
   bijection (fst (allocationFor (acknowledge (Texgen 126)) (ColorUsage 1))) \<and>
   bijection (deallocateUsage (fst (allocationFor (acknowledge (Texgen 126)) (ColorUsage 1))) (ColorUsage 1))"
proof -
  let ?s = "fst (allocationFor (acknowledge (Texgen 126 :: usage texgen)) (ColorUsage 1))"
  have le: "(126::nat) + 2 \<le> 256" by simp
  have r: "reachable 126 ?s" by (intro r_alloc r_ack r_new)
  have ev: "allocationFor (acknowledge (Texgen 126 :: usage texgen)) (ColorUsage 1) =
      (acknowledge (Texgen 126)\<lparr>tileAllocMap := [1, 0, 0, 0], usageMap := [ColorUsage 1 \<mapsto> 0]\<rparr>,
       Some (0, 0))"
    apply (simp add: Texgen_def enlargeTexture_def borderTileSize_def acknowledge_def
        allocationFor_def tileAlloc_def Let_def tileCoords_def)
    apply (subst tileAlloc_loop.simps)
    apply (simp add: truthyAt_def numeral_eq_Suc)
    done
  from bijection_reachable[OF le r, of "ColorUsage 1"] le r ev show ?thesis by simp
qed

lemma allocationFor_255:
  "allocationFor (acknowledge (Texgen 255)) k =
     (acknowledge (Texgen 255)\<lparr>usageMap := [k \<mapsto> 0]\<rparr>, None)"
  apply (simp add: Texgen_def enlargeTexture_def borderTileSize_def acknowledge_def
      allocationFor_def tileAlloc_def Let_def tileCoords_def)
  apply (subst tileAlloc_loop.simps)
  apply (simp add: truthyAt_def)
  done

text \<open>
  Claim C1, at a failing input. The atlas \<^verbatim>\<open>new Texgen(255)\<close>, acknowledged, has a
  bitmap with no cell (the bordered tile, 257 pixels, does not fit the texture of 256) and
  no token: the correspondence holds. After one \<^verbatim>\<open>allocationFor\<close> the texture is not
  lost, the token is in the usage map at index 0, and the bitmap still has no cell: the
  token is at no occupied cell. With one cell more (tile size 254) the exhausted bitmap
  makes \<^verbatim>\<open>tileAlloc\<close> enlarge the texture; with an empty bitmap the loop that holds
  that check is never entered.
\<close>

theorem atlas_bijection_empty_bitmap:
  "tileAllocMap (acknowledge (Texgen 255 :: usage texgen)) = [] \<and>
   usageMap (acknowledge (Texgen 255 :: usage texgen)) = Map.empty \<and>
   \<not> textureLost (fst (allocationFor (acknowledge (Texgen 255)) (ColorUsage 1))) \<and>
   usageMap (fst (allocationFor (acknowledge (Texgen 255)) (ColorUsage 1))) (ColorUsage 1) = Some 0 \<and>
   tileAllocMap (fst (allocationFor (acknowledge (Texgen 255)) (ColorUsage 1))) = []"
  unfolding allocationFor_255
  by (simp add: acknowledge_def Texgen_def enlargeTexture_def borderTileSize_def Let_def)

text \<open>In that state the correspondence of C1 does not hold.\<close>

theorem atlas_bijection_counterexample:
  "\<not> textureLost (fst (allocationFor (acknowledge (Texgen 255)) (ColorUsage 1))) \<and>
   \<not> bijection (fst (allocationFor (acknowledge (Texgen 255)) (ColorUsage 1)))"
  unfolding allocationFor_255
  by (simp add: bijection_def acknowledge_def Texgen_def enlargeTexture_def
      borderTileSize_def Let_def)



lemma allocationFor_known:
  "\<not> textureLost s \<Longrightarrow> usageMap s k = Some i \<Longrightarrow> allocationFor s k = (s, tileCoords s i)"
  by (simp add: allocationFor_def)

lemma allocationFor_fresh:
  assumes ok: "allocator_ok s" and nl: "\<not> textureLost s" and fresh: "usageMap s k = None"
    and free: "\<exists>i < length (tileAllocMap s). tileAllocMap s ! i = 0"
  shows "\<exists>j < length (tileAllocMap s).
           tileAllocMap s ! ((freePointer s + j) mod length (tileAllocMap s)) = 0 \<and>
           (\<forall>j' < j. tileAllocMap s ! ((freePointer s + j') mod length (tileAllocMap s)) = 1) \<and>
           allocationFor s k =
             (s\<lparr>tileAllocMap := (tileAllocMap s)[(freePointer s + j) mod length (tileAllocMap s) := 1],
                freePointer := (freePointer s + j) mod length (tileAllocMap s),
                usageMap := (usageMap s)(k \<mapsto> (freePointer s + j) mod length (tileAllocMap s))\<rparr>,
              Some (((freePointer s + j) mod length (tileAllocMap s)) div tileCountSqrt s,
                    ((freePointer s + j) mod length (tileAllocMap s)) mod tileCountSqrt s))"
proof -
  from tileAlloc_found[OF ok free] obtain j where
    j: "j < length (tileAllocMap s)"
       "tileAllocMap s ! ((freePointer s + j) mod length (tileAllocMap s)) = 0"
       "\<forall>j' < j. tileAllocMap s ! ((freePointer s + j') mod length (tileAllocMap s)) = 1"
       "tileAlloc s =
             (s\<lparr>tileAllocMap := (tileAllocMap s)[(freePointer s + j) mod length (tileAllocMap s) := 1],
                freePointer := (freePointer s + j) mod length (tileAllocMap s)\<rparr>,
              (freePointer s + j) mod length (tileAllocMap s), False)" by blast
  from ok have "0 < tileCountSqrt s" unfolding allocator_ok_def by blast
  with j nl fresh show ?thesis
    by (intro exI[of _ j]) (simp add: allocationFor_def Let_def tileCoords_def)
qed

lemma allocationFor_grow:
  assumes ok: "allocator_ok s" and nl: "\<not> textureLost s" and fresh: "usageMap s k = None"
    and full: "\<forall>i < length (tileAllocMap s). tileAllocMap s ! i \<noteq> 0"
  shows "allocationFor s k = (enlargeTexture s, Some (0, 0))"
proof -
  from ok have "allocator_ok (enlargeTexture s)"
    by (intro enlargeTexture_ok) (auto simp: allocator_ok_def)
  then have "0 < tileCountSqrt (enlargeTexture s)" unfolding allocator_ok_def by blast
  with tileAlloc_exhausted[OF ok full] nl fresh show ?thesis
    by (simp add: allocationFor_def Let_def tileCoords_def)
qed

lemma enlargeTexture_fields:
  "textureSize (enlargeTexture s) = 2 * textureSize s \<and>
   tileCountSqrt (enlargeTexture s) = (2 * textureSize s) div (tileSize s + 2) \<and>
   tileUVSize (enlargeTexture s) = of_nat (tileSize s) / of_nat (2 * textureSize s) \<and>
   borderUVOffset (enlargeTexture s) = 1 / of_nat (2 * textureSize s) \<and>
   borderTileUVSize (enlargeTexture s) = of_nat (tileSize s + 2) / of_nat (2 * textureSize s) \<and>
   imageHeap (enlargeTexture s) (image (enlargeTexture s)) =
     \<lparr>width = 2 * textureSize s,
      data = replicate (4 * (2 * textureSize s) * (2 * textureSize s)) 0\<rparr> \<and>
   tileAllocMap (enlargeTexture s) =
     replicate ((2 * textureSize s) div (tileSize s + 2) * ((2 * textureSize s) div (tileSize s + 2))) 0 \<and>
   usageMap (enlargeTexture s) = Map.empty \<and>
   textureLost (enlargeTexture s)"
  by (simp add: enlargeTexture_def Let_def borderTileSize_def createImageData_def mult.commute)

text \<open>
  Claim C2, at the input where the code departs from it. With \<^verbatim>\<open>new Texgen(255)\<close>
  the bitmap has no cell, so no free cell exists, and the claim has \<^verbatim>\<open>allocationFor\<close>
  enlarge the texture. The loop of \<^verbatim>\<open>tileAlloc\<close> finds \<^verbatim>\<open>tileAllocMap[0]\<close>
  undefined and does not run: the texture keeps its size, \<^verbatim>\<open>textureLost\<close> stays
  false, the token is registered at index 0 and the coordinates returned are not
  numbers. (For an allocator with at least one cell the three cases of the claim are
  \<open>allocationFor_known\<close>, \<open>allocationFor_fresh\<close> and \<open>allocationFor_grow\<close> with
  \<open>enlargeTexture_fields\<close>.)
\<close>

theorem allocationFor_empty_bitmap:
  "tileAllocMap (acknowledge (Texgen 255 :: usage texgen)) = [] \<and>
   \<not> textureLost (acknowledge (Texgen 255 :: usage texgen)) \<and>
   usageMap (acknowledge (Texgen 255)) (ColorUsage 1) = None \<and>
   allocationFor (acknowledge (Texgen 255)) (ColorUsage 1) =
     (acknowledge (Texgen 255)\<lparr>usageMap := [ColorUsage 1 \<mapsto> 0]\<rparr>, None) \<and>
   textureSize (fst (allocationFor (acknowledge (Texgen 255 :: usage texgen)) (ColorUsage 1))) = 256 \<and>
   \<not> textureLost (fst (allocationFor (acknowledge (Texgen 255 :: usage texgen)) (ColorUsage 1)))"
  unfolding allocationFor_255
  by (simp add: acknowledge_def Texgen_def enlargeTexture_def borderTileSize_def Let_def)

text \<open>
  Claim C3. While \<^verbatim>\<open>textureLost\<close> is set, \<^verbatim>\<open>allocationFor\<close> returns \<open>(0, 0)\<close>
  and \<^verbatim>\<open>deallocateUsage\<close> returns at once, both leaving the whole state (bitmap and
  usage map included) as it was. While it is clear, \<^verbatim>\<open>deallocateUsage\<close> stores 0 in
  the bitmap cell of the token and removes the token from the usage map, changing
  nothing else.
\<close>

theorem lost_gating:
  "(textureLost s \<longrightarrow>
      allocationFor s k = (s, Some (0, 0)) \<and> deallocateUsage s k = s) \<and>
   (\<not> textureLost s \<longrightarrow>
      deallocateUsage s k =
        s\<lparr>tileAllocMap := (case usageMap s k of None \<Rightarrow> tileAllocMap s
                            | Some index \<Rightarrow> (tileAllocMap s)[index := 0]),
           usageMap := (usageMap s)(k := None)\<rparr> \<and>
      usageMap (deallocateUsage s k) k = None \<and>
      (\<forall>index. usageMap s k = Some index \<and> index < length (tileAllocMap s) \<longrightarrow>
           tileAllocMap (deallocateUsage s k) ! index = 0))"
  by (auto simp: allocationFor_def deallocateUsage_def tileFree_def Let_def split: option.splits)

theorem lost_gating_witness:
  "textureLost (Texgen 126 :: usage texgen) \<and>
   allocationFor (Texgen 126) (ColorUsage 1) = (Texgen 126, Some (0, 0)) \<and>
   deallocateUsage (Texgen 126) (ColorUsage 1) = Texgen 126 \<and>
   \<not> textureLost (fst (allocationFor (acknowledge (Texgen 126)) (ColorUsage 1))) \<and>
   usageMap (fst (allocationFor (acknowledge (Texgen 126)) (ColorUsage 1))) (ColorUsage 1) = Some 0 \<and>
   tileAllocMap (fst (allocationFor (acknowledge (Texgen 126)) (ColorUsage 1))) ! 0 = 1 \<and>
   usageMap (deallocateUsage (fst (allocationFor (acknowledge (Texgen 126)) (ColorUsage 1)))
               (ColorUsage 1)) (ColorUsage 1) = None \<and>
   tileAllocMap (deallocateUsage (fst (allocationFor (acknowledge (Texgen 126)) (ColorUsage 1)))
               (ColorUsage 1)) ! 0 = 0"
proof -
  let ?t = "Texgen 126 :: usage texgen"
  let ?s = "fst (allocationFor (acknowledge ?t) (ColorUsage 1))"
  have lost: "textureLost ?t" by (simp add: Texgen_def enlargeTexture_def Let_def)
  have ev: "allocationFor (acknowledge ?t) (ColorUsage 1) =
      (acknowledge ?t\<lparr>tileAllocMap := [1, 0, 0, 0], usageMap := [ColorUsage 1 \<mapsto> 0]\<rparr>,
       Some (0, 0))"
    apply (simp add: Texgen_def enlargeTexture_def borderTileSize_def acknowledge_def
        allocationFor_def tileAlloc_def Let_def tileCoords_def)
    apply (subst tileAlloc_loop.simps)
    apply (simp add: truthyAt_def numeral_eq_Suc)
    done
  have nl: "\<not> textureLost ?s" and um: "usageMap ?s (ColorUsage 1) = Some 0"
    and len: "0 < length (tileAllocMap ?s)" and one: "tileAllocMap ?s ! 0 = 1"
    unfolding ev by (simp_all add: acknowledge_def)
  from lost_gating[of ?t "ColorUsage 1"] lost lost_gating[of ?s "ColorUsage 1"] nl um len one
  show ?thesis by simp
qed

text \<open>
  Claim C9, amended. The variable \<^verbatim>\<open>textureSize\<close> starts at 128 but the constructor
  calls \<^verbatim>\<open>enlargeTexture\<close> before it returns, so a newly constructed atlas has
  \<open>textureSize = 256\<close> and a pixel surface of side 256 before any allocation
  (\<open>atlas_size_counterexample\<close> below). In every state the atlas can reach,
  \<open>textureSize\<close> is a power of two (256 or more) and is the side of the current image,
  \<open>tileCountSqrt = textureSize div (tileSize + 2)\<close>, and the bitmap has
  \<open>tileCountSqrt * tileCountSqrt\<close> cells; \<^verbatim>\<open>enlargeTexture\<close> exactly doubles
  \<open>textureSize\<close>, and an \<^verbatim>\<open>allocationFor\<close> either enlarges the texture or leaves
  \<open>textureSize\<close> as it was.
\<close>

theorem atlas_size:
  assumes "reachable tsz s"
  shows "textureSize (Texgen tsz :: 'k texgen) = 256 \<and>
         width (imageHeap (Texgen tsz :: 'k texgen) (image (Texgen tsz :: 'k texgen))) = 256 \<and>
         (\<exists>n\<ge>8. textureSize s = 2 ^ n) \<and>
         width (imageHeap s (image s)) = textureSize s \<and>
         length (data (imageHeap s (image s))) = 4 * textureSize s * textureSize s \<and>
         tileCountSqrt s = textureSize s div (tsz + 2) \<and>
         length (tileAllocMap s) = tileCountSqrt s * tileCountSqrt s \<and>
         textureSize (enlargeTexture s) = 2 * textureSize s \<and>
         (fst (allocationFor s k) = enlargeTexture s \<or>
          textureSize (fst (allocationFor s k)) = textureSize s)"
proof -
  from reachable_sized[OF assms] have sz: "sized tsz s" .
  have new: "textureSize (Texgen tsz :: 'k texgen) = 256 \<and>
         width (imageHeap (Texgen tsz :: 'k texgen) (image (Texgen tsz :: 'k texgen))) = 256"
    by (simp add: Texgen_def enlargeTexture_def Let_def createImageData_def)
  have dbl: "textureSize (enlargeTexture s) = 2 * textureSize s"
    by (simp add: enlargeTexture_def Let_def)
  have step: "fst (allocationFor s k) = enlargeTexture s \<or>
          textureSize (fst (allocationFor s k)) = textureSize s"
    using allocationFor_cases[of s k] by auto
  from sz new dbl step show ?thesis unfolding sized_def by blast
qed

theorem atlas_size_witness:
  "reachable 126 (fst (allocationFor (acknowledge (Texgen 126)) (ColorUsage 1))) \<and>
   textureSize (fst (allocationFor (acknowledge (Texgen 126)) (ColorUsage 1))) = 256 \<and>
   tileCountSqrt (fst (allocationFor (acknowledge (Texgen 126)) (ColorUsage 1))) = 2 \<and>
   length (tileAllocMap (fst (allocationFor (acknowledge (Texgen 126)) (ColorUsage 1)))) = 4 \<and>
   width (imageHeap (fst (allocationFor (acknowledge (Texgen 126)) (ColorUsage 1)))
           (image (fst (allocationFor (acknowledge (Texgen 126)) (ColorUsage 1))))) = 256"
proof -
  let ?t = "Texgen 126 :: usage texgen"
  let ?s = "fst (allocationFor (acknowledge ?t) (ColorUsage 1))"
  have r: "reachable 126 ?s" by (intro r_alloc r_ack r_new)
  have ev: "allocationFor (acknowledge ?t) (ColorUsage 1) =
      (acknowledge ?t\<lparr>tileAllocMap := [1, 0, 0, 0], usageMap := [ColorUsage 1 \<mapsto> 0]\<rparr>,
       Some (0, 0))"
    apply (simp add: Texgen_def enlargeTexture_def borderTileSize_def acknowledge_def
        allocationFor_def tileAlloc_def Let_def tileCoords_def)
    apply (subst tileAlloc_loop.simps)
    apply (simp add: truthyAt_def numeral_eq_Suc)
    done
  have ts: "textureSize ?s = 256" unfolding ev
    by (simp add: acknowledge_def Texgen_def enlargeTexture_def Let_def)
  from atlas_size[OF r, of "ColorUsage 1"] r ts show ?thesis by auto
qed

theorem atlas_size_counterexample:
  "textureSize (Texgen 16 :: usage texgen) \<noteq> 128 \<and>
   width (imageHeap (Texgen 16 :: usage texgen) (image (Texgen 16 :: usage texgen))) \<noteq> 128"
  by (simp add: Texgen_def enlargeTexture_def Let_def createImageData_def)


section \<open>The block set: proofs\<close>


lemma foldl_add_tileSize:
  "bs_tileSize (foldl add bs bts) =
     (case bs_tileSize bs of
        Some t \<Rightarrow> Some t
      | None \<Rightarrow> (case worldsOf bts of [] \<Rightarrow> None | w # ws \<Rightarrow> Some (wx w)))"
proof (induction bts arbitrary: bs)
  case Nil
  then show ?case by (simp split: option.splits)
next
  case (Cons bt bts)
  show ?case
  proof (cases bt)
    case (Color c)
    then have "bs_tileSize (add bs bt) = bs_tileSize bs" by (simp add: add_def Let_def)
    with Color show ?thesis using Cons.IH[of "add bs bt"] by (simp split: option.splits)
  next
    case (World w op avg)
    then have "bs_tileSize (add bs bt) =
        (case bs_tileSize bs of None \<Rightarrow> Some (wx w) | Some t \<Rightarrow> Some t)"
      by (auto simp: add_def Let_def split: option.splits)
    with World show ?thesis using Cons.IH[of "add bs bt"]
      by (simp split: option.splits)
  qed
qed

lemma foldl_add_types: "types (foldl add bs bts) = types bs @ bts"
proof (induction bts arbitrary: bs)
  case Nil
  then show ?case by simp
next
  case (Cons bt bts)
  have "types (add bs bt) = types bs @ [bt]"
    by (cases bt) (simp_all add: add_def Let_def)
  with Cons.IH[of "add bs bt"] show ?case by simp
qed

text \<open>
  Claim C10. The \<^verbatim>\<open>tileSize\<close> getter of \<^verbatim>\<open>BlockSet(initialTypes)\<close> returns 1 when
  \<open>initialTypes\<close> holds no \<^verbatim>\<open>World\<close> type, and otherwise the side \<^verbatim>\<open>wx\<close> of the
  world of its first \<^verbatim>\<open>World\<close> type, whatever the sides of the later ones. For one
  \<^verbatim>\<open>add\<close>: the getter keeps an established value, and with none established it
  returns the side of an added world, or still 1 after an added colour.
\<close>

theorem tileSize_established:
  "tileSize_getter (BlockSet symm bts) = (case worldsOf bts of [] \<Rightarrow> 1 | w # ws \<Rightarrow> wx w) \<and>
   types (BlockSet symm bts) = air # bts \<and>
   tileSize_getter (add bs bt) =
     (case bs_tileSize bs of
        Some t \<Rightarrow> t
      | None \<Rightarrow> (case bt of Color color \<Rightarrow> 1 | World world blockOpaque avg \<Rightarrow> wx world))"
proof -
  have a: "tileSize_getter (BlockSet symm bts) = (case worldsOf bts of [] \<Rightarrow> 1 | w # ws \<Rightarrow> wx w)"
    by (simp add: tileSize_getter_def BlockSet_def foldl_add_tileSize split: list.splits)
  have b: "types (BlockSet symm bts) = air # bts"
    by (simp add: BlockSet_def foldl_add_types)
  have c: "tileSize_getter (add bs bt) =
     (case bs_tileSize bs of
        Some t \<Rightarrow> t
      | None \<Rightarrow> (case bt of Color color \<Rightarrow> 1 | World world blockOpaque avg \<Rightarrow> wx world))"
    by (cases bt) (auto simp: tileSize_getter_def add_def Let_def split: option.splits)
  from a b c show ?thesis by blast
qed

theorem tileSize_established_witness:
  "tileSize_getter (BlockSet \<lparr>applyCubeSymmetry = (\<lambda>rot scale v. v),
                  isReflection = (\<lambda>rot. False), COUNT = 24\<rparr> [Color (1, 0, 0, 1)]) = 1 \<and>
   tileSize_getter (BlockSet \<lparr>applyCubeSymmetry = (\<lambda>rot scale v. v),
                  isReflection = (\<lambda>rot. False), COUNT = 24\<rparr> [Color (1, 0, 0, 1),
       World (MkWorld 16 (\<lambda>x y z. air) (\<lambda>x y z. False)) False (0, 0, 0),
       World (MkWorld 8 (\<lambda>x y z. air) (\<lambda>x y z. False)) False (0, 0, 0)]) = 16"
  using tileSize_established[of "\<lparr>applyCubeSymmetry = (\<lambda>rot scale v. v),
                  isReflection = (\<lambda>rot. False), COUNT = 24\<rparr>" "[Color (1, 0, 0, 1)]"]
    tileSize_established[of "\<lparr>applyCubeSymmetry = (\<lambda>rot scale v. v),
                  isReflection = (\<lambda>rot. False), COUNT = 24\<rparr>" "[Color (1, 0, 0, 1),
       World (MkWorld 16 (\<lambda>x y z. air) (\<lambda>x y z. False)) False (0, 0, 0),
       World (MkWorld 8 (\<lambda>x y z. air) (\<lambda>x y z. False)) False (0, 0, 0)]"]
  by simp

section \<open>The rotation cache: proofs\<close>


lemma flat3_Cons [simp]: "flat3 ((a, b, c) # ts) = a # b # c # flat3 ts"
  by (simp add: flat3_def)

lemma flat3_Nil [simp]: "flat3 [] = []"
  by (simp add: flat3_def)

lemma flat3_append [simp]: "flat3 (ts @ us) = flat3 ts @ flat3 us"
  by (simp add: flat3_def)

lemma flat3_single: "flat3 (t # ts) = flat3 [t] @ flat3 ts"
  by (simp add: flat3_def)

lemma length_flat3: "length (flat3 ts) = 3 * length ts"
  by (induction ts) auto

lemma flat2_Cons [simp]: "flat2 ((a, b) # ps) = a # b # flat2 ps"
  by (simp add: flat2_def)

lemma flat2_Nil [simp]: "flat2 [] = []"
  by (simp add: flat2_def)

lemma flat2_append [simp]: "flat2 (ps @ qs) = flat2 ps @ flat2 qs"
  by (simp add: flat2_def)

lemma length_flat2: "length (flat2 ps) = 2 * length ps"
  by (induction ps) auto

lemma triples_flat3 [simp]: "triples (flat3 ts) = ts"
  by (induction ts) auto

lemma pairs_flat2 [simp]: "pairs (flat2 ps) = ps"
  by (induction ps) auto

lemma flat3_triples: "length xs mod 3 = 0 \<Longrightarrow> flat3 (triples xs) = xs"
proof (induction xs rule: triples.induct)
  case (1 a b c xs)
  then show ?case by (simp add: mod_Suc split: if_splits)
qed simp_all

lemma flat2_pairs: "length xs mod 2 = 0 \<Longrightarrow> flat2 (pairs xs) = xs"
proof (induction xs rule: pairs.induct)
  case (1 a b xs)
  then show ?case by (simp add: mod_Suc split: if_splits)
qed simp_all

lemma jsget_append_right:
  "jsget (pre @ xs) (int (length pre) + int j) = (if j < length xs then xs ! j else None)"
  by (simp add: jsget_def nth_append nat_add_distrib)

lemma rotateVertex_at:
  "rotateVertex symm rot (pre @ a # b # c # xs) (int (length pre)) =
     flat3 [applyCubeSymmetry symm rot 1 (a, b, c)]"
proof -
  have g0: "jsget (pre @ a # b # c # xs) (int (length pre)) = a"
    using jsget_append_right[of pre "a # b # c # xs" 0] by simp
  have g1: "jsget (pre @ a # b # c # xs) (int (length pre) + 1) = b"
    using jsget_append_right[of pre "a # b # c # xs" 1] by simp
  have g2: "jsget (pre @ a # b # c # xs) (int (length pre) + 2) = c"
    using jsget_append_right[of pre "a # b # c # xs" 2] by simp
  show ?thesis
    by (simp add: rotateVertex_def g0 g1 g2 flat3_def split: prod.splits)
qed

lemma rotateVertices_up_flat3:
  "rotateVertices_up symm rot (pre @ flat3 ts) (int (length pre)) out =
     out @ flat3 (map (applyCubeSymmetry symm rot 1) ts)"
proof (induction ts arbitrary: pre out)
  case Nil
  show ?case by (subst rotateVertices_up.simps) simp
next
  case (Cons t ts)
  obtain a b c where t: "t = (a, b, c)" by (cases t) auto
  have step: "rotateVertices_up symm rot (pre @ flat3 (t # ts)) (int (length pre)) out =
      rotateVertices_up symm rot (pre @ flat3 (t # ts)) (int (length pre) + 3)
        (out @ flat3 [applyCubeSymmetry symm rot 1 (a, b, c)])"
    by (subst rotateVertices_up.simps) (simp add: t rotateVertex_at)
  have re: "pre @ flat3 (t # ts) = (pre @ [a, b, c]) @ flat3 ts" by (simp add: t)
  have idx: "int (length pre) + 3 = int (length (pre @ [a, b, c]))" by simp
  show ?case
    unfolding step
    unfolding re idx
    unfolding Cons.IH
    by (simp add: t flat3_def)
qed

lemma rotateVertices_down_flat3:
  "rotateVertices_down symm rot (flat3 ts @ rest) (int (length (flat3 ts)) - 3) out =
     out @ flat3 (map (applyCubeSymmetry symm rot 1) (rev ts))"
proof (induction ts arbitrary: rest out rule: rev_induct)
  case Nil
  show ?case by (subst rotateVertices_down.simps) simp
next
  case (snoc t ts)
  obtain a b c where t: "t = (a, b, c)" by (cases t) auto
  have re: "flat3 (ts @ [t]) @ rest = flat3 ts @ a # b # c # rest" by (simp add: t)
  have i: "int (length (flat3 (ts @ [t]))) - 3 = int (length (flat3 ts))" by (simp add: t)
  have step: "rotateVertices_down symm rot (flat3 ts @ a # b # c # rest) (int (length (flat3 ts))) out =
      rotateVertices_down symm rot (flat3 ts @ a # b # c # rest) (int (length (flat3 ts)) - 3)
        (out @ flat3 [applyCubeSymmetry symm rot 1 (a, b, c)])"
    by (subst rotateVertices_down.simps) (simp add: rotateVertex_at)
  show ?case
    unfolding re i step
    unfolding snoc.IH
    by (simp add: t flat3_def)
qed

lemma rotateTexcoords_down_flat2:
  "rotateTexcoords_down (flat2 ps @ rest) (int (length (flat2 ps)) - 2) out = out @ flat2 (rev ps)"
proof (induction ps arbitrary: rest out rule: rev_induct)
  case Nil
  show ?case by (subst rotateTexcoords_down.simps) simp
next
  case (snoc p ps)
  obtain a b where p: "p = (a, b)" by (cases p) auto
  have re: "flat2 (ps @ [p]) @ rest = flat2 ps @ a # b # rest" by (simp add: p)
  have i: "int (length (flat2 (ps @ [p]))) - 2 = int (length (flat2 ps))" by (simp add: p)
  have g0: "jsget (flat2 ps @ a # b # rest) (int (length (flat2 ps))) = a"
    using jsget_append_right[of "flat2 ps" "a # b # rest" 0] by simp
  have g1: "jsget (flat2 ps @ a # b # rest) (int (length (flat2 ps)) + 1) = b"
    using jsget_append_right[of "flat2 ps" "a # b # rest" 1] by simp
  have step: "rotateTexcoords_down (flat2 ps @ a # b # rest) (int (length (flat2 ps))) out =
      rotateTexcoords_down (flat2 ps @ a # b # rest) (int (length (flat2 ps)) - 2) (out @ [a, b])"
    by (subst rotateTexcoords_down.simps) (simp add: g0 g1)
  show ?case
    unfolding re i step
    unfolding snoc.IH
    by (simp add: p)
qed

lemma rotateVertices_rotation:
  assumes "length verts mod 3 = 0" "\<not> isReflection symm rot"
  shows "rotateVertices symm rot verts = flat3 (map (applyCubeSymmetry symm rot 1) (triples verts))"
  using rotateVertices_up_flat3[of symm rot "[]" "triples verts" "[]"] assms
  by (simp add: rotateVertices_def flat3_triples)

lemma rotateVertices_reflection:
  assumes "length verts mod 3 = 0" "isReflection symm rot"
  shows "rotateVertices symm rot verts =
           flat3 (map (applyCubeSymmetry symm rot 1) (rev (triples verts)))"
  using rotateVertices_down_flat3[of symm rot "triples verts" "[]" "[]"] assms
  by (simp add: rotateVertices_def flat3_triples)

lemma rotateTexcoords_reflection:
  assumes "length tcs mod 2 = 0" "isReflection symm rot"
  shows "rotateTexcoords symm rot tcs = flat2 (rev (pairs tcs))"
  using rotateTexcoords_down_flat2[of "pairs tcs" "[]" "[]"] assms
  by (simp add: rotateTexcoords_def flat2_pairs)

text \<open>
  Claim C8. For every variant \<open>rot\<close>, every vertex array of whole corners (a multiple
  of three numbers) and every texcoord array of whole corners (a multiple of two): for a
  pure rotation \<^verbatim>\<open>rotateVertices\<close> applies the symmetry to each corner in order and
  \<^verbatim>\<open>rotateTexcoords\<close> returns the array unchanged; for a reflection
  \<^verbatim>\<open>rotateVertices\<close> applies it to the corners in reverse order, which is the
  reverse of what the forward loop produces, and \<^verbatim>\<open>rotateTexcoords\<close> returns the
  corners in reverse order.
\<close>

theorem rotation_winding:
  assumes "length verts mod 3 = 0" and "length tcs mod 2 = 0"
  shows "(\<not> isReflection symm rot \<longrightarrow>
            rotateVertices symm rot verts =
              flat3 (map (applyCubeSymmetry symm rot 1) (triples verts)) \<and>
            rotateTexcoords symm rot tcs = tcs) \<and>
         (isReflection symm rot \<longrightarrow>
            rotateVertices symm rot verts =
              flat3 (map (applyCubeSymmetry symm rot 1) (rev (triples verts))) \<and>
            triples (rotateVertices symm rot verts) =
              rev (triples (rotateVertices_up symm rot verts 0 [])) \<and>
            rotateTexcoords symm rot tcs = flat2 (rev (pairs tcs)) \<and>
            pairs (rotateTexcoords symm rot tcs) = rev (pairs tcs))"
proof -
  have up: "rotateVertices_up symm rot verts 0 [] =
      flat3 (map (applyCubeSymmetry symm rot 1) (triples verts))"
    using rotateVertices_up_flat3[of symm rot "[]" "triples verts" "[]"] assms(1)
    by (simp add: flat3_triples)
  show ?thesis
    using rotateVertices_rotation[OF assms(1), of symm rot]
      rotateVertices_reflection[OF assms(1), of symm rot]
      rotateTexcoords_reflection[OF assms(2), of symm rot]
    by (auto simp: up rev_map rotateTexcoords_def)
qed

theorem rotation_winding_witness:
  "length [Some 1, Some 2, Some 3, Some 4, Some 5, Some (6::rat)] mod 3 = 0 \<and>
   length [Some 1, Some 2, Some 3, Some (4::rat)] mod 2 = 0 \<and>
   isReflection \<lparr>applyCubeSymmetry = (\<lambda>rot scale v. case v of (x, y, z) \<Rightarrow> (y, x, z)),
                 isReflection = (\<lambda>rot. rot = 1), COUNT = 2\<rparr> 1 \<and>
   rotateVertices \<lparr>applyCubeSymmetry = (\<lambda>rot scale v. case v of (x, y, z) \<Rightarrow> (y, x, z)),
                   isReflection = (\<lambda>rot. rot = 1), COUNT = 2\<rparr> 1
       [Some 1, Some 2, Some 3, Some 4, Some 5, Some 6] =
     [Some 5, Some 4, Some 6, Some 2, Some 1, Some 3] \<and>
   rotateTexcoords \<lparr>applyCubeSymmetry = (\<lambda>rot scale v. case v of (x, y, z) \<Rightarrow> (y, x, z)),
                    isReflection = (\<lambda>rot. rot = 1), COUNT = 2\<rparr> 1
       [Some 1, Some 2, Some 3, Some 4] = [Some 3, Some 4, Some 1, Some 2] \<and>
   rotateVertices \<lparr>applyCubeSymmetry = (\<lambda>rot scale v. case v of (x, y, z) \<Rightarrow> (y, x, z)),
                   isReflection = (\<lambda>rot. rot = 1), COUNT = 2\<rparr> 0
       [Some 1, Some 2, Some 3, Some 4, Some 5, Some 6] =
     [Some 2, Some 1, Some 3, Some 5, Some 4, Some 6]"
  using rotation_winding[of "[Some 1, Some 2, Some 3, Some 4, Some 5, Some (6::rat)]"
      "[Some 1, Some 2, Some 3, Some (4::rat)]"
      "\<lparr>applyCubeSymmetry = (\<lambda>rot scale v. case v of (x, y, z) \<Rightarrow> (y, x, z)),
        isReflection = (\<lambda>rot. rot = 1), COUNT = 2\<rparr>" 1]
    rotation_winding[of "[Some 1, Some 2, Some 3, Some 4, Some 5, Some (6::rat)]"
      "[Some 1, Some 2, Some 3, Some (4::rat)]"
      "\<lparr>applyCubeSymmetry = (\<lambda>rot scale v. case v of (x, y, z) \<Rightarrow> (y, x, z)),
        isReflection = (\<lambda>rot. rot = 1), COUNT = 2\<rparr>" 0]
  by simp


section \<open>Slicing a world: proofs\<close>


lemma length_wr [simp]: "length (wr d i v) = length d"
  by (simp add: wr_def)

lemma rd_wr_same: "rd (wr d i v) i = (if 0 \<le> i \<and> i < int (length d) then v else 0)"
  by (auto simp: rd_def wr_def)

lemma length_writeColor [simp]: "length (writeColor bt scale d c) = length d"
  by (simp add: writeColor_def Let_def)

lemma rd_writeColor_alpha:
  "rd (writeColor bt scale d c) (c + 3) =
     (if 0 \<le> c + 3 \<and> c + 3 < int (length d) then toUint8Clamp (colorComponents bt scale ! 3) else 0)"
  by (simp add: writeColor_def Let_def rd_wr_same)

lemma data_writeTex [simp]:
  "data (imageHeap (writeTex s texImg f) texImg) = f (data (imageHeap s texImg))"
  by (simp add: writeTex_def)

lemma slicePixel_transparent:
  assumes "transparentWorld world"
  shows "snd (slicePixel world transform layer texImg texWidth coord (s, a, b) uv) = (a, b)"
proof (cases coord)
  case None
  then show ?thesis by (simp add: slicePixel_def)
next
  case (Some p)
  obtain pixu pixv where p: "p = (pixu, pixv)" by (cases p) auto
  obtain u v where uv: "uv = (u, v)" by (cases uv) auto
  from assms have z: "toUint8Clamp (colorComponents (gt world x y z) 255 ! 3) = 0" for x y z
    by (simp add: transparentWorld_def)
  show ?thesis
    by (simp add: slicePixel_def Some p uv Let_def rd_writeColor_alpha z)
qed

lemma foldl_slicePixel_transparent:
  assumes "transparentWorld world"
  shows "snd (foldl (slicePixel world transform layer texImg texWidth coord) (s, a, b) uvs) = (a, b)"
proof (induction uvs arbitrary: s)
  case Nil
  show ?case by simp
next
  case (Cons uv uvs)
  obtain s' where s': "slicePixel world transform layer texImg texWidth coord (s, a, b) uv = (s', a, b)"
    using slicePixel_transparent[OF assms, of transform layer texImg texWidth coord s a b uv]
    by (cases "slicePixel world transform layer texImg texWidth coord (s, a, b) uv") auto
  show ?case using Cons.IH[of s'] by (simp add: s')
qed

lemma slicePixels_transparent:
  "transparentWorld world \<Longrightarrow>
   snd (slicePixels world transform layer tsz texImg texWidth coord s) = (False, False)"
  by (simp add: slicePixels_def foldl_slicePixel_transparent)

lemma sliceWorld_transparent:
  assumes "transparentWorld world"
  shows "sliceWorld world blockOpaque blockID tsz texImg texWidth dimName layer transform (s, arrays) =
     (deallocateUsage
        (fst (slicePixels world transform layer tsz texImg texWidth
                (snd (imageCoordsFor s (SliceUsage blockID dimName layer)))
                (fst (imageCoordsFor s (SliceUsage blockID dimName layer)))))
        (SliceUsage blockID dimName layer),
      arrays)"
proof -
  obtain s1 coord where ic: "imageCoordsFor s (SliceUsage blockID dimName layer) = (s1, coord)"
    by (cases "imageCoordsFor s (SliceUsage blockID dimName layer)") auto
  obtain s2 where sp: "slicePixels world transform layer tsz texImg texWidth coord s1 = (s2, False, False)"
    using slicePixels_transparent[OF assms, of transform layer tsz texImg texWidth coord s1]
    by (cases "slicePixels world transform layer tsz texImg texWidth coord s1") auto
  obtain tl th vl vh where arr: "arrays = (tl, th, vl, vh)" by (cases arrays) auto
  show ?thesis by (simp add: sliceWorld_def Let_def ic sp arr)
qed

lemma sliceLayers_transparent:
  assumes "transparentWorld world"
  shows "snd (sliceLayers (\<lambda>layer. sliceWorld world blockOpaque blockID tsz texImg texWidth
                                dimName layer transform) layers (s, arrays))
           \<in> {None, Some arrays}"
proof (induction layers arbitrary: s)
  case Nil
  show ?case by simp
next
  case (Cons layer layers)
  show ?case
  proof (cases "textureLost s")
    case True
    then show ?thesis by simp
  next
    case False
    then show ?thesis
      using Cons.IH by (simp add: sliceWorld_transparent[OF assms])
  qed
qed

lemma emptyFaces_store:
  "emptyFaces fd \<Longrightarrow> emptyFaces (storeFaces fd dimName ([], [], [], []))"
  by (auto simp: emptyFaces_def storeFaces_def)

lemma sliceDim_transparent:
  assumes "transparentWorld world" "emptyFaces fd"
  shows "emptyFaces (snd (sliceDim world blockOpaque blockID tsz texImg texWidth (s, fd) m))"
proof -
  obtain dimName transform where m: "m = (dimName, transform)" by (cases m) auto
  let ?slice = "\<lambda>layer. sliceWorld world blockOpaque blockID tsz texImg texWidth dimName layer transform"
  show ?thesis
  proof (cases blockOpaque)
    case True
    show ?thesis
      using assms(2) emptyFaces_store[OF assms(2)]
      by (simp add: sliceDim_def m True Let_def sliceWorld_transparent[OF assms(1)])
  next
    case False
    obtain s' r where r: "sliceLayers ?slice (map int [0..<tsz]) (s, [], [], [], []) = (s', r)"
      by (cases "sliceLayers ?slice (map int [0..<tsz]) (s, [], [], [], [])") auto
    from sliceLayers_transparent[OF assms(1), of blockOpaque blockID tsz texImg texWidth dimName transform
        "map int [0..<tsz]" s "([], [], [], [])"] r
    have "r = None \<or> r = Some ([], [], [], [])" by simp
    then show ?thesis
      using assms(2) emptyFaces_store[OF assms(2)] r
      by (auto simp: sliceDim_def m False Let_def)
  qed
qed

lemma foldl_sliceDim_transparent:
  assumes "transparentWorld world"
  shows "emptyFaces fd \<Longrightarrow>
    emptyFaces (snd (foldl (sliceDim world blockOpaque blockID tsz texImg texWidth) (s, fd) ms))"
proof (induction ms arbitrary: s fd)
  case Nil
  then show ?case by simp
next
  case (Cons m ms)
  obtain s' fd' where st: "sliceDim world blockOpaque blockID tsz texImg texWidth (s, fd) m = (s', fd')"
    by (cases "sliceDim world blockOpaque blockID tsz texImg texWidth (s, fd) m") auto
  with sliceDim_transparent[OF assms Cons.prems, of blockOpaque blockID tsz texImg texWidth s m]
  have "emptyFaces fd'" by simp
  from Cons.IH[OF this] show ?case by (simp add: st)
qed

lemma rotateVertices_Nil [simp]: "rotateVertices symm rot [] = []"
  by (simp add: rotateVertices_def rotateVertices_down.simps rotateVertices_up.simps)

lemma rotateTexcoords_Nil [simp]: "rotateTexcoords symm rot [] = []"
  by (simp add: rotateTexcoords_def rotateTexcoords_down.simps)

lemma emptyFaces_rotate: "emptyFaces fd \<Longrightarrow> emptyFaces (rotateFaceData symm rot fd)"
  by (auto simp: emptyFaces_def rotateFaceData_def)

lemma deallocateUsage_released:
  "textureLost (deallocateUsage s k) \<or> usageMap (deallocateUsage s k) k = None"
  by (auto simp: deallocateUsage_def tileFree_def Let_def split: option.splits)

text \<open>
  Claim C5. For a \<^verbatim>\<open>World\<close> block type whose world writes alpha zero at every
  voxel, every slice ends its pixel loop with both \<^verbatim>\<open>thisLayerNotEmptyL\<close> and
  \<^verbatim>\<open>thisLayerNotEmptyH\<close> false, so \<^verbatim>\<open>sliceWorld\<close> takes its first branch: it
  calls \<^verbatim>\<open>deallocateUsage\<close> on the slice's token (after which the token is not in
  the usage map, unless the texture is lost and the map was emptied by the growth),
  calls neither \<^verbatim>\<open>completed\<close> nor \<^verbatim>\<open>pushQuad\<close>, and leaves the four arrays as they
  were. The canonical faces and all \<^verbatim>\<open>COUNT\<close> rotated variants hold no vertex and
  no texture coordinate.
\<close>

theorem transparent_world_culled:
  assumes "transparentWorld world"
  shows "emptyFaces (snd (worldFaceData s blockID world blockOpaque)) \<and>
         length (snd (rebuildWorld symm s blockID world blockOpaque)) = COUNT symm \<and>
         (\<forall>rot < COUNT symm. emptyFaces (snd (rebuildWorld symm s blockID world blockOpaque) ! rot)) \<and>
         snd (slicePixels world transform layer tsz texImg texWidth coord s') = (False, False) \<and>
         sliceWorld world blockOpaque blockID tsz texImg texWidth dimName layer transform (s', arrays) =
           (deallocateUsage
              (fst (slicePixels world transform layer tsz texImg texWidth
                      (snd (imageCoordsFor s' (SliceUsage blockID dimName layer)))
                      (fst (imageCoordsFor s' (SliceUsage blockID dimName layer)))))
              (SliceUsage blockID dimName layer),
            arrays) \<and>
         (textureLost (fst (sliceWorld world blockOpaque blockID tsz texImg texWidth dimName layer
                              transform (s', arrays))) \<or>
          usageMap (fst (sliceWorld world blockOpaque blockID tsz texImg texWidth dimName layer
                              transform (s', arrays))) (SliceUsage blockID dimName layer) = None)"
proof -
  have e0: "emptyFaces Map.empty" by (simp add: emptyFaces_def)
  have a: "emptyFaces (snd (worldFaceData s blockID world blockOpaque))"
    unfolding worldFaceData_def Let_def
    by (rule foldl_sliceDim_transparent[OF assms e0])
  obtain s1 fd where w: "worldFaceData s blockID world blockOpaque = (s1, fd)"
    by (cases "worldFaceData s blockID world blockOpaque") auto
  with a have fd: "emptyFaces fd" by simp
  have b: "length (snd (rebuildWorld symm s blockID world blockOpaque)) = COUNT symm"
    by (simp add: rebuildWorld_def w)
  have c: "\<forall>rot < COUNT symm. emptyFaces (snd (rebuildWorld symm s blockID world blockOpaque) ! rot)"
    by (simp add: rebuildWorld_def w emptyFaces_rotate[OF fd])
  note d = slicePixels_transparent[OF assms, of transform layer tsz texImg texWidth coord s']
  note e = sliceWorld_transparent[OF assms, of blockOpaque blockID tsz texImg texWidth dimName layer
      transform s' arrays]
  have f: "textureLost (fst (sliceWorld world blockOpaque blockID tsz texImg texWidth dimName layer
                              transform (s', arrays))) \<or>
          usageMap (fst (sliceWorld world blockOpaque blockID tsz texImg texWidth dimName layer
                              transform (s', arrays))) (SliceUsage blockID dimName layer) = None"
    unfolding e using deallocateUsage_released by simp
  from a b c d e f show ?thesis by blast
qed


theorem transparent_world_culled_witness:
  "transparentWorld (MkWorld 2 (\<lambda>x y z. air) (\<lambda>x y z. False)) \<and>
   emptyFaces (snd (worldFaceData (acknowledge (Texgen 2)) 1
                      (MkWorld 2 (\<lambda>x y z. air) (\<lambda>x y z. False)) False)) \<and>
   length (snd (rebuildWorld \<lparr>applyCubeSymmetry = (\<lambda>rot scale v. v),
                  isReflection = (\<lambda>rot. False), COUNT = 24\<rparr> (acknowledge (Texgen 2)) 1
                      (MkWorld 2 (\<lambda>x y z. air) (\<lambda>x y z. False)) False)) = 24"
proof -
  have t: "transparentWorld (MkWorld 2 (\<lambda>x y z. air) (\<lambda>x y z. False))"
    by (simp add: transparentWorld_def air_def toUint8Clamp_def)
  from transparent_world_culled[OF t, of "acknowledge (Texgen 2)" 1 False
      "\<lparr>applyCubeSymmetry = (\<lambda>rot scale v. v), isReflection = (\<lambda>rot. False), COUNT = 24\<rparr>"] t
  show ?thesis by simp
qed


lemma quadsOf_0 [simp]: "quadsOf flipped transform depth 0 = []"
  by (simp add: quadsOf_def)

lemma quadsOf_1 [simp]: "quadsOf flipped transform depth (Suc 0) = quadVertices flipped transform depth"
  by (simp add: quadsOf_def)

lemma quadsOf_add:
  "quadsOf flipped transform depth m @ quadsOf flipped transform depth n =
   quadsOf flipped transform depth (m + n)"
  by (simp add: quadsOf_def replicate_add)

lemma length_calcTexCoords: "length (snd (calcTexCoords s k flipped)) = 12"
  by (simp add: calcTexCoords_def Let_def split: prod.splits)

lemma pushQuad_shape:
  obtains s' tc where
    "pushQuad s verts tcs flipped transform depth k =
       (s', verts @ quadsOf flipped transform depth 1, tcs @ tc)" "length tc = 12"
proof -
  obtain s' tc where c: "calcTexCoords s k flipped = (s', tc)"
    by (cases "calcTexCoords s k flipped") auto
  with length_calcTexCoords[of s k flipped] have "length tc = 12" by simp
  moreover have "pushQuad s verts tcs flipped transform depth k =
       (s', verts @ quadsOf flipped transform depth 1, tcs @ tc)"
    by (simp add: pushQuad_def c)
  ultimately show ?thesis using that by blast
qed

lemma slicePixels_no_pixels:
  "slicePixels world transform layer 0 texImg texWidth coord s = (s, False, False)"
  by (simp add: slicePixels_def)

lemma sliceWorld_shape:
  obtains s' nL nH tL tH where
    "sliceWorld world blockOpaque blockID tsz texImg texWidth dimName layer transform
       (s, tcL, tcH, vL, vH) =
     (s', tcL @ tL, tcH @ tH,
      vL @ quadsOf False transform (of_int layer / of_nat tsz) nL,
      vH @ quadsOf True transform (of_int (layer + 1) / of_nat tsz) nH)"
    "nL \<le> 1" "nH \<le> 1" "length tL = 12 * nL" "length tH = 12 * nH"
    "nL = 1 \<Longrightarrow> \<not> blockOpaque \<or> layer = 0"
    "nH = 1 \<Longrightarrow> \<not> blockOpaque \<or> layer = int tsz - 1"
    "tsz = 0 \<Longrightarrow> nL = 0 \<and> nH = 0"
proof -
  let ?k = "SliceUsage blockID dimName layer"
  obtain s1 coord where ic: "imageCoordsFor s ?k = (s1, coord)"
    by (cases "imageCoordsFor s ?k") auto
  obtain s2 a b where sp: "slicePixels world transform layer tsz texImg texWidth coord s1 = (s2, a, b)"
    by (cases "slicePixels world transform layer tsz texImg texWidth coord s1") auto
  have z: "tsz = 0 \<Longrightarrow> \<not> a \<and> \<not> b" using sp by (simp add: slicePixels_no_pixels)
  let ?dL = "of_int layer / of_nat tsz :: rat" and ?dH = "of_int (layer + 1) / of_nat tsz :: rat"
  show ?thesis
  proof (cases "\<not> a \<and> \<not> b")
    case True
    then have "sliceWorld world blockOpaque blockID tsz texImg texWidth dimName layer transform
       (s, tcL, tcH, vL, vH) =
     (deallocateUsage s2 ?k, tcL @ [], tcH @ [],
      vL @ quadsOf False transform ?dL 0, vH @ quadsOf True transform ?dH 0)"
      by (simp add: sliceWorld_def Let_def ic sp)
    then show ?thesis using that[of "deallocateUsage s2 ?k" "[]" "[]" 0 0] by simp
  next
    case False
    let ?s3 = "completed s2 ?k"
    let ?cL = "a \<and> (\<not> blockOpaque \<or> layer = 0)"
    let ?cH = "b \<and> (\<not> blockOpaque \<or> layer = int tsz - 1)"
    obtain s4 nL tL where L:
      "(if ?cL then pushQuad ?s3 vL tcL False transform ?dL ?k else (?s3, vL, tcL)) =
         (s4, vL @ quadsOf False transform ?dL nL, tcL @ tL)"
      "nL \<le> 1" "length tL = 12 * nL" "nL = 1 \<Longrightarrow> ?cL"
    proof (cases ?cL)
      case True
      obtain s' tc where "pushQuad ?s3 vL tcL False transform ?dL ?k =
         (s', vL @ quadsOf False transform ?dL 1, tcL @ tc)" "length tc = 12"
        by (rule pushQuad_shape)
      with True that[of s' 1 tc] show ?thesis by simp
    next
      case False
      then have "(if ?cL then pushQuad ?s3 vL tcL False transform ?dL ?k else (?s3, vL, tcL)) =
         (?s3, vL @ quadsOf False transform ?dL 0, tcL @ [])" by auto
      from that[OF this] show ?thesis by simp
    qed
    obtain s5 nH tH where H:
      "(if ?cH then pushQuad s4 vH tcH True transform ?dH ?k else (s4, vH, tcH)) =
         (s5, vH @ quadsOf True transform ?dH nH, tcH @ tH)"
      "nH \<le> 1" "length tH = 12 * nH" "nH = 1 \<Longrightarrow> ?cH"
    proof (cases ?cH)
      case True
      obtain s' tc where "pushQuad s4 vH tcH True transform ?dH ?k =
         (s', vH @ quadsOf True transform ?dH 1, tcH @ tc)" "length tc = 12"
        by (rule pushQuad_shape)
      with True that[of s' 1 tc] show ?thesis by simp
    next
      case False
      then have "(if ?cH then pushQuad s4 vH tcH True transform ?dH ?k else (s4, vH, tcH)) =
         (s4, vH @ quadsOf True transform ?dH 0, tcH @ [])" by auto
      from that[OF this] show ?thesis by simp
    qed
    have eq: "sliceWorld world blockOpaque blockID tsz texImg texWidth dimName layer transform
       (s, tcL, tcH, vL, vH) =
     (s5, tcL @ tL, tcH @ tH, vL @ quadsOf False transform ?dL nL, vH @ quadsOf True transform ?dH nH)"
      using False L(1) H(1) by (auto simp: sliceWorld_def Let_def ic sp)
    have zz: "tsz = 0 \<Longrightarrow> nL = 0 \<and> nH = 0" using z False by blast
    show ?thesis
      using that[OF eq L(2) H(2) L(3) H(3)] L(4) H(4) zz by blast
  qed
qed



lemma outerQuads_cong:
  "fd' (Lo d) = fd (Lo d) \<Longrightarrow> fd' (Hi d) = fd (Hi d) \<Longrightarrow> outerQuads tsz d T fd \<Longrightarrow> outerQuads tsz d T fd'"
  by (simp add: outerQuads_def)

lemma sliceDim_opaque:
  obtains s' where "sliceDim world True blockID tsz texImg texWidth (s, fd) (d, T) = (s', fd)"
  | s' nL nH tL tH where
      "sliceDim world True blockID tsz texImg texWidth (s, fd) (d, T) =
         (s', fd(Lo d \<mapsto> \<lparr>vertices = quadsOf False T 0 nL, texcoords = tL\<rparr>,
                 Hi d \<mapsto> \<lparr>vertices = quadsOf True T 1 nH, texcoords = tH\<rparr>))"
      "nL \<le> 2" "nH \<le> 2" "length tL = 12 * nL" "length tH = 12 * nH"
      "tsz \<noteq> 1 \<Longrightarrow> nL \<le> 1 \<and> nH \<le> 1"
proof (cases "textureLost s")
  case True
  then have "sliceDim world True blockID tsz texImg texWidth (s, fd) (d, T) = (s, fd)"
    by (simp add: sliceDim_def Let_def)
  then show ?thesis using that(1) by blast
next
  case False
  let ?slice = "\<lambda>layer. sliceWorld world True blockID tsz texImg texWidth d layer T"
  let ?last = "int tsz - 1"
  obtain s1 nL0 nH0 tL0 tH0 where s1:
    "?slice 0 (s, [], [], [], []) =
       (s1, [] @ tL0, [] @ tH0, [] @ quadsOf False T (of_int 0 / of_nat tsz) nL0,
        [] @ quadsOf True T (of_int (0 + 1) / of_nat tsz) nH0)"
    "nL0 \<le> 1" "nH0 \<le> 1" "length tL0 = 12 * nL0" "length tH0 = 12 * nH0"
    "nH0 = 1 \<Longrightarrow> \<not> True \<or> (0::int) = int tsz - 1"
    by (rule sliceWorld_shape[of world True blockID tsz texImg texWidth d 0 T s "[]" "[]" "[]" "[]"]) blast
  have h0: "quadsOf True T (of_int (0 + 1) / of_nat tsz) nH0 = quadsOf True T 1 nH0"
  proof (cases "nH0 = 1")
    case True
    with s1(6) have "tsz = 1" by simp
    then show ?thesis by simp
  next
    case False
    with s1(3) have "nH0 = 0" by simp
    then show ?thesis by simp
  qed
  have l0: "quadsOf False T (of_int 0 / of_nat tsz) nL0 = quadsOf False T 0 nL0" by simp
  have s1': "?slice 0 (s, [], [], [], []) =
       (s1, tL0, tH0, quadsOf False T 0 nL0, quadsOf True T 1 nH0)"
    unfolding s1(1) h0 l0 by simp
  obtain s2 nL1 nH1 tL1 tH1 where s2:
    "?slice ?last (s1, tL0, tH0, quadsOf False T 0 nL0, quadsOf True T 1 nH0) =
       (s2, tL0 @ tL1, tH0 @ tH1,
        quadsOf False T 0 nL0 @ quadsOf False T (of_int ?last / of_nat tsz) nL1,
        quadsOf True T 1 nH0 @ quadsOf True T (of_int (?last + 1) / of_nat tsz) nH1)"
    "nL1 \<le> 1" "nH1 \<le> 1" "length tL1 = 12 * nL1" "length tH1 = 12 * nH1"
    "nL1 = 1 \<Longrightarrow> \<not> True \<or> ?last = 0"
    "tsz = 0 \<Longrightarrow> nL1 = 0 \<and> nH1 = 0"
    by (rule sliceWorld_shape[of world True blockID tsz texImg texWidth d ?last T s1
          tL0 tH0 "quadsOf False T 0 nL0" "quadsOf True T 1 nH0"]) blast
  have l1: "quadsOf False T (of_int ?last / of_nat tsz) nL1 = quadsOf False T 0 nL1"
  proof (cases "nL1 = 1")
    case True
    with s2(6) have "?last = 0" by simp
    then show ?thesis by simp
  next
    case False
    with s2(2) have "nL1 = 0" by simp
    then show ?thesis by simp
  qed
  have h1: "quadsOf True T (of_int (?last + 1) / of_nat tsz) nH1 = quadsOf True T 1 nH1"
  proof (cases "tsz = 0")
    case True
    with s2(7) show ?thesis by simp
  next
    case False
    then show ?thesis by simp
  qed
  have s2': "?slice ?last (s1, tL0, tH0, quadsOf False T 0 nL0, quadsOf True T 1 nH0) =
       (s2, tL0 @ tL1, tH0 @ tH1, quadsOf False T 0 (nL0 + nL1), quadsOf True T 1 (nH0 + nH1))"
    unfolding s2(1) l1 h1 quadsOf_add by (rule refl)
  have one: "tsz \<noteq> 1 \<Longrightarrow> nL1 = 0 \<and> nH0 = 0"
  proof -
    assume ne: "tsz \<noteq> 1"
    have "nL1 \<noteq> 1" using s2(6) ne by auto
    moreover have "nH0 \<noteq> 1" using s1(6) ne by auto
    ultimately show ?thesis using s2(2) s1(3) by simp
  qed
  have eq: "sliceDim world True blockID tsz texImg texWidth (s, fd) (d, T) =
      (s2, fd(Lo d \<mapsto> \<lparr>vertices = quadsOf False T 0 (nL0 + nL1), texcoords = tL0 @ tL1\<rparr>,
              Hi d \<mapsto> \<lparr>vertices = quadsOf True T 1 (nH0 + nH1), texcoords = tH0 @ tH1\<rparr>))"
    using False by (simp add: sliceDim_def Let_def storeFaces_def s1' s2')
  show ?thesis
    using that(2)[OF eq] s1(2-5) s2(2-5) one by simp
qed

lemma TILE_MAPPINGS_dims:
  "(d, T) \<in> set TILE_MAPPINGS \<Longrightarrow> (d, T') \<in> set TILE_MAPPINGS \<Longrightarrow> T = T'"
  by (auto simp: TILE_MAPPINGS_def)

lemma sliceDim_opaque_outer:
  assumes inv: "\<forall>(d, T) \<in> set TILE_MAPPINGS. outerQuads tsz d T fd" and m: "m \<in> set TILE_MAPPINGS"
  shows "\<forall>(d, T) \<in> set TILE_MAPPINGS.
           outerQuads tsz d T (snd (sliceDim world True blockID tsz texImg texWidth (s, fd) m))"
proof -
  obtain d0 T0 where m0: "m = (d0, T0)" by (cases m) auto
  show ?thesis
  proof (rule sliceDim_opaque[of world blockID tsz texImg texWidth s fd d0 T0])
    fix s' assume "sliceDim world True blockID tsz texImg texWidth (s, fd) (d0, T0) = (s', fd)"
    with inv show ?thesis by (simp add: m0)
  next
    fix s' nL nH tL tH
    assume eq: "sliceDim world True blockID tsz texImg texWidth (s, fd) (d0, T0) =
         (s', fd(Lo d0 \<mapsto> \<lparr>vertices = quadsOf False T0 0 nL, texcoords = tL\<rparr>,
                 Hi d0 \<mapsto> \<lparr>vertices = quadsOf True T0 1 nH, texcoords = tH\<rparr>))"
      and b: "nL \<le> 2" "nH \<le> 2" "length tL = 12 * nL" "length tH = 12 * nH"
        "tsz \<noteq> 1 \<Longrightarrow> nL \<le> 1 \<and> nH \<le> 1"
    let ?fd' = "fd(Lo d0 \<mapsto> \<lparr>vertices = quadsOf False T0 0 nL, texcoords = tL\<rparr>,
                 Hi d0 \<mapsto> \<lparr>vertices = quadsOf True T0 1 nH, texcoords = tH\<rparr>)"
    have "outerQuads tsz d T ?fd'" if dT: "(d, T) \<in> set TILE_MAPPINGS" for d T
    proof (cases "d = d0")
      case True
      with dT m m0 have "T = T0" using TILE_MAPPINGS_dims by blast
      with True b show ?thesis
        unfolding outerQuads_def by (intro exI[of _ nL] exI[of _ nH]) auto
    next
      case False
      from inv dT have "outerQuads tsz d T fd" by blast
      then show ?thesis using False by (intro outerQuads_cong[of ?fd' d fd]) simp_all
    qed
    then show ?thesis by (auto simp: m0 eq)
  qed
qed

lemma foldl_sliceDim_opaque_outer:
  "\<forall>(d, T) \<in> set TILE_MAPPINGS. outerQuads tsz d T fd \<Longrightarrow> set ms \<subseteq> set TILE_MAPPINGS \<Longrightarrow>
   \<forall>(d, T) \<in> set TILE_MAPPINGS.
      outerQuads tsz d T (snd (foldl (sliceDim world True blockID tsz texImg texWidth) (s, fd) ms))"
proof (induction ms arbitrary: s fd)
  case Nil
  then show ?case by simp
next
  case (Cons m ms)
  obtain s' fd' where st: "sliceDim world True blockID tsz texImg texWidth (s, fd) m = (s', fd')"
    by (cases "sliceDim world True blockID tsz texImg texWidth (s, fd) m") auto
  from Cons.prems(2) have m: "m \<in> set TILE_MAPPINGS" and ms: "set ms \<subseteq> set TILE_MAPPINGS" by simp_all
  from sliceDim_opaque_outer[OF Cons.prems(1) m, of world blockID texImg texWidth s] st
  have "\<forall>(d, T) \<in> set TILE_MAPPINGS. outerQuads tsz d T fd'" by simp
  from Cons.IH[OF this ms] show ?case by (simp add: st)
qed

lemma sliceWorld_opaque_interior:
  assumes "0 < layer" "layer < int tsz - 1"
  shows "snd (sliceWorld world True blockID tsz texImg texWidth dimName layer transform (s, arrays)) = arrays"
proof -
  obtain tcL tcH vL vH where arr: "arrays = (tcL, tcH, vL, vH)" by (cases arrays) auto
  obtain s' nL nH tL tH where sh:
    "sliceWorld world True blockID tsz texImg texWidth dimName layer transform
       (s, tcL, tcH, vL, vH) =
     (s', tcL @ tL, tcH @ tH,
      vL @ quadsOf False transform (of_int layer / of_nat tsz) nL,
      vH @ quadsOf True transform (of_int (layer + 1) / of_nat tsz) nH)"
    "nL \<le> 1" "nH \<le> 1" "length tL = 12 * nL" "length tH = 12 * nH"
    "nL = 1 \<Longrightarrow> \<not> True \<or> layer = 0"
    "nH = 1 \<Longrightarrow> \<not> True \<or> layer = int tsz - 1"
    by (rule sliceWorld_shape[of world True blockID tsz texImg texWidth dimName layer transform s
          tcL tcH vL vH]) blast
  from sh(6) assms(1) have "nL \<noteq> 1" by auto
  with sh(2) have nL: "nL = 0" by simp
  from sh(7) assms(2) have "nH \<noteq> 1" by auto
  with sh(3) have nH: "nH = 0" by simp
  from sh(1,4,5) nL nH show ?thesis by (simp add: arr)
qed

text \<open>
  Claim C4. For a \<^verbatim>\<open>World\<close> block type whose \<^verbatim>\<open>opaque\<close> flag is true, whatever its
  world holds: for each dimension of \<^verbatim>\<open>TILE_MAPPINGS\<close>, the low face of the canonical
  geometry consists only of the low-side quad of layer 0 (depth 0) and the high face only
  of the high-side quad of layer \<open>tileSize - 1\<close> (depth 1), once each at most (twice
  when the tile size is 1, where both calls of \<^verbatim>\<open>sliceWorld\<close> slice layer 0); every
  rotated variant is \<^verbatim>\<open>rotateFaceData\<close> of that canonical geometry; and
  \<^verbatim>\<open>sliceWorld\<close> for a layer strictly between 0 and \<open>tileSize - 1\<close> pushes to none of
  the four arrays.
\<close>

theorem opaque_outer_layers:
  assumes "(dimName, transform) \<in> set TILE_MAPPINGS"
  shows "outerQuads (tileSize s) dimName transform (snd (worldFaceData s blockID world True)) \<and>
         (\<forall>rot < COUNT symm.
            snd (rebuildWorld symm s blockID world True) ! rot =
              rotateFaceData symm rot (snd (worldFaceData s blockID world True))) \<and>
         (0 < layer \<and> layer < int tsz - 1 \<longrightarrow>
            snd (sliceWorld world True blockID tsz texImg texWidth dimName layer transform (s', arrays))
              = arrays)"
proof -
  have e: "\<forall>(d, T) \<in> set TILE_MAPPINGS. outerQuads (tileSize s) d T Map.empty"
    by (auto simp: outerQuads_def)
  have "\<forall>(d, T) \<in> set TILE_MAPPINGS.
          outerQuads (tileSize s) d T (snd (worldFaceData s blockID world True))"
    unfolding worldFaceData_def Let_def
    by (rule foldl_sliceDim_opaque_outer[OF e]) simp
  with assms have a: "outerQuads (tileSize s) dimName transform (snd (worldFaceData s blockID world True))"
    by blast
  have b: "\<forall>rot < COUNT symm.
            snd (rebuildWorld symm s blockID world True) ! rot =
              rotateFaceData symm rot (snd (worldFaceData s blockID world True))"
    by (simp add: rebuildWorld_def split: prod.splits)
  from a b sliceWorld_opaque_interior[of layer tsz world blockID texImg texWidth dimName transform s' arrays]
  show ?thesis by blast
qed


section \<open>Pixels of the atlas\<close>


text \<open>Calls that find their token leave the atlas as it is.\<close>

lemma allocationFor_present:
  "\<not> textureLost s \<Longrightarrow> usageMap s k = Some i \<Longrightarrow> allocationFor s k = (s, tileCoords s i)"
  by (simp add: allocationFor_def)

lemma imageCoordsFor_present:
  "\<not> textureLost s \<Longrightarrow> usageMap s k = Some i \<Longrightarrow>
   imageCoordsFor s k =
     (s, map_option (\<lambda>(c0, c1). (1 + int (borderTileSize s) * int c0,
                                  1 + int (borderTileSize s) * int c1)) (tileCoords s i))"
  by (simp add: imageCoordsFor_def allocationFor_present)

lemma uvFor_present:
  "\<not> textureLost s \<Longrightarrow> usageMap s k = Some i \<Longrightarrow> fst (uvFor s k) = s"
  by (simp add: uvFor_def allocationFor_present)

lemma calcTexCoords_present:
  "\<not> textureLost s \<Longrightarrow> usageMap s k = Some i \<Longrightarrow> fst (calcTexCoords s k flipped) = s"
  using uvFor_present[of s k i]
  by (auto simp: calcTexCoords_def Let_def split: prod.splits)

lemma pushQuad_present:
  "\<not> textureLost s \<Longrightarrow> usageMap s k = Some i \<Longrightarrow>
   fst (pushQuad s verts tcs flipped transform depth k) = s"
  using calcTexCoords_present[of s k i flipped]
  by (auto simp: pushQuad_def split: prod.splits)

lemma colorFace_present:
  "\<not> textureLost s \<Longrightarrow> usageMap s k = Some i \<Longrightarrow> fst (colorFace k (s, fd) m) = s"
proof -
  assume a: "\<not> textureLost s" "usageMap s k = Some i"
  obtain d T where m: "m = (d, T)" by (cases m) auto
  obtain vL tL where p1: "pushQuad s [] [] False T 0 k = (s, vL, tL)"
    using pushQuad_present[OF a, of "[]" "[]" False T 0]
    by (cases "pushQuad s [] [] False T 0 k") auto
  obtain vH tH where p2: "pushQuad s [] [] True T 1 k = (s, vH, tH)"
    using pushQuad_present[OF a, of "[]" "[]" True T 1]
    by (cases "pushQuad s [] [] True T 1 k") auto
  show ?thesis by (simp add: colorFace_def m p1 p2)
qed

lemma foldl_colorFace_present:
  "\<not> textureLost s \<Longrightarrow> usageMap s k = Some i \<Longrightarrow> fst (foldl (colorFace k) (s, fd) ms) = s"
proof (induction ms arbitrary: fd)
  case Nil
  show ?case by simp
next
  case (Cons m ms)
  obtain fd' where "colorFace k (s, fd) m = (s, fd')"
    using colorFace_present[OF Cons.prems, of fd m] by (cases "colorFace k (s, fd) m") auto
  with Cons.IH[OF Cons.prems, of fd'] show ?case by simp
qed

lemma writeTex_fields [simp]:
  "textureLost (writeTex s i f) = textureLost s" "usageMap (writeTex s i f) = usageMap s"
  "image (writeTex s i f) = image s" "tileSize (writeTex s i f) = tileSize s"
  "tileCountSqrt (writeTex s i f) = tileCountSqrt s" "tileAllocMap (writeTex s i f) = tileAllocMap s"
  "freePointer (writeTex s i f) = freePointer s" "textureSize (writeTex s i f) = textureSize s"
  "borderTileSize (writeTex s i f) = borderTileSize s" "imageCount (writeTex s i f) = imageCount s"
  "tileUVSize (writeTex s i f) = tileUVSize s" "borderUVOffset (writeTex s i f) = borderUVOffset s"
  "borderTileUVSize (writeTex s i f) = borderTileUVSize s"
  "width (imageHeap (writeTex s i f) j) = width (imageHeap s j)"
  by (simp_all add: writeTex_def borderTileSize_def)

lemma imageCoordsFor_present':
  "\<not> textureLost s \<Longrightarrow> usageMap s k = Some i \<Longrightarrow> imageCoordsFor s k = (s, tileOrigin s i)"
  by (simp add: imageCoordsFor_present tileOrigin_def)

lemma completed_present:
  "\<not> textureLost s \<Longrightarrow> usageMap s k = Some i \<Longrightarrow>
   completed s k =
     (case tileOrigin s i of
        None \<Rightarrow> s
      | Some coords \<Rightarrow>
          writeTex s (image s)
            (\<lambda>d. completedColumns coords (width (imageHeap s (image s))) (tileSize s)
                   (completedRows coords (width (imageHeap s (image s))) (tileSize s) d)))"
  by (simp add: completed_def imageCoordsFor_present' writeTex_def Let_def split: option.splits)


section \<open>Bytes of an image\<close>

lemma rd_wr: "rd (wr d i v) j = (if j = i \<and> 0 \<le> i \<and> i < int (length d) then v else rd d j)"
  by (auto simp: rd_def wr_def nth_list_update)

lemma rd_oob: "p < 0 \<or> int (length d) \<le> p \<Longrightarrow> rd d p = 0"
  by (auto simp: rd_def)

lemma rd_wr4_in:
  assumes "0 \<le> p" "p < int (length d)"
  shows "rd (wr (wr (wr (wr d c v0) (c + 1) v1) (c + 2) v2) (c + 3) v3) p =
     (if p = c + 3 then v3 else if p = c + 2 then v2 else if p = c + 1 then v1 else if p = c then v0
      else rd d p)"
  using assms by (simp add: rd_wr)

lemma rd_wr4_same:
  assumes "p \<in> {c, c + 1, c + 2, c + 3}" "length d = length d'"
  shows "rd (wr (wr (wr (wr d c v0) (c + 1) v1) (c + 2) v2) (c + 3) v3) p =
         rd (wr (wr (wr (wr d' c v0) (c + 1) v1) (c + 2) v2) (c + 3) v3) p"
proof (cases "0 \<le> p \<and> p < int (length d)")
  case True
  then have a: "0 \<le> p" "p < int (length d)" "0 \<le> p" "p < int (length d')" using assms(2) by simp_all
  show ?thesis unfolding rd_wr4_in[OF a(1,2)] rd_wr4_in[OF a(3,4)] using assms(1) by auto
next
  case False
  then have "rd (wr (wr (wr (wr d c v0) (c + 1) v1) (c + 2) v2) (c + 3) v3) p = 0"
    by (intro rd_oob) auto
  moreover from False assms(2)
  have "rd (wr (wr (wr (wr d' c v0) (c + 1) v1) (c + 2) v2) (c + 3) v3) p = 0"
    by (intro rd_oob) auto
  ultimately show ?thesis by simp
qed

lemma rd_wr_other: "j \<noteq> i \<Longrightarrow> rd (wr d i v) j = rd d j"
  by (simp add: rd_wr)

lemma rd_writeColor_other:
  "p \<notin> pixelBytes c \<Longrightarrow> rd (writeColor bt scale d c) p = rd d p"
  by (simp add: writeColor_def Let_def rd_wr pixelBytes_def)

lemma rd_writeColor_same:
  "p \<in> pixelBytes c \<Longrightarrow> length d = length d' \<Longrightarrow>
   rd (writeColor bt scale d c) p = rd (writeColor bt scale d' c) p"
  unfolding writeColor_def Let_def pixelBytes_def by (rule rd_wr4_same)

lemma length_copy [simp]: "length (copy d dst src) = length d"
  by (simp add: copy_def Let_def)

lemma rd_copy_other: "p \<notin> pixelBytes dst \<Longrightarrow> rd (copy d dst src) p = rd d p"
  by (simp add: copy_def Let_def rd_wr pixelBytes_def)

lemma length_slicePixelData [simp]:
  "length (slicePixelData world transform layer texWidth coord d uv) = length d"
  by (simp add: slicePixelData_def Let_def)

lemma length_colorPixelData [simp]:
  "length (colorPixelData texWidth coord rgba d uv) = length d"
  by (simp add: colorPixelData_def Let_def split: prod.splits)

lemma length_foldl_slicePixelData [simp]:
  "length (foldl (slicePixelData world transform layer texWidth coord) d uvs) = length d"
  by (induction uvs arbitrary: d) auto

lemma length_foldl_colorPixelData [simp]:
  "length (foldl (colorPixelData texWidth coord rgba) d uvs) = length d"
  by (induction uvs arbitrary: d) auto

lemma rd_colorPixelData_other:
  "p \<notin> pixelBytes (pixelIndex coord texWidth uv) \<Longrightarrow>
   rd (colorPixelData texWidth coord rgba d uv) p = rd d p"
  by (simp add: colorPixelData_def Let_def rd_wr pixelBytes_def split: prod.splits)

lemma rd_colorPixelData_same:
  "p \<in> pixelBytes (pixelIndex coord texWidth uv) \<Longrightarrow> length d = length d' \<Longrightarrow>
   rd (colorPixelData texWidth coord rgba d uv) p = rd (colorPixelData texWidth coord rgba d' uv) p"
proof -
  assume a: "p \<in> pixelBytes (pixelIndex coord texWidth uv)" "length d = length d'"
  obtain r g b al where rgba: "rgba = (r, g, b, al)" by (cases rgba) auto
  from a(1) have a': "p \<in> {pixelIndex coord texWidth uv, pixelIndex coord texWidth uv + 1,
      pixelIndex coord texWidth uv + 2, pixelIndex coord texWidth uv + 3}"
    by (simp add: pixelBytes_def)
  show ?thesis
    using rd_wr4_same[OF a' a(2), of "toUint8Clamp r" "toUint8Clamp g" "toUint8Clamp b" "toUint8Clamp al"]
    by (simp add: colorPixelData_def Let_def rgba)
qed

lemma rd_slicePixelData_other:
  "p \<notin> pixelBytes (pixelIndex coord texWidth uv) \<Longrightarrow>
   rd (slicePixelData world transform layer texWidth coord d uv) p = rd d p"
  unfolding slicePixelData_def Let_def by (rule rd_writeColor_other)

lemma rd_slicePixelData_same:
  "p \<in> pixelBytes (pixelIndex coord texWidth uv) \<Longrightarrow> length d = length d' \<Longrightarrow>
   rd (slicePixelData world transform layer texWidth coord d uv) p =
   rd (slicePixelData world transform layer texWidth coord d' uv) p"
  unfolding slicePixelData_def Let_def by (rule rd_writeColor_same)

lemma pixelsBytes_simps [simp]:
  "pixelsBytes coord texWidth [] = {}"
  "pixelsBytes coord texWidth (uv # uvs) =
     pixelBytes (pixelIndex coord texWidth uv) \<union> pixelsBytes coord texWidth uvs"
  "pixelsBytes coord texWidth (uvs @ uvs') =
     pixelsBytes coord texWidth uvs \<union> pixelsBytes coord texWidth uvs'"
  by (auto simp: pixelsBytes_def)

text \<open>A loop that stores into the pixels of a list leaves every other byte alone, and
  what it leaves in the bytes of those pixels does not depend on what was there.\<close>

lemma foldl_other:
  assumes step: "\<And>d uv p. p \<notin> pixelBytes (pixelIndex coord texWidth uv) \<Longrightarrow> rd (f d uv) p = rd d p"
  shows "p \<notin> pixelsBytes coord texWidth uvs \<Longrightarrow> rd (foldl f d uvs) p = rd d p"
proof (induction uvs arbitrary: d)
  case Nil
  show ?case by simp
next
  case (Cons uv uvs)
  then have "rd (foldl f (f d uv) uvs) p = rd (f d uv) p" by simp
  also have "\<dots> = rd d p" using Cons.prems by (simp add: step)
  finally show ?case by simp
qed

lemma foldl_same:
  assumes other: "\<And>d uv p. p \<notin> pixelBytes (pixelIndex coord texWidth uv) \<Longrightarrow> rd (f d uv) p = rd d p"
    and same: "\<And>d d' uv p. p \<in> pixelBytes (pixelIndex coord texWidth uv) \<Longrightarrow> length d = length d' \<Longrightarrow>
                 rd (f d uv) p = rd (f d' uv) p"
    and len: "\<And>d uv. length (f d uv) = length d"
  shows "p \<in> pixelsBytes coord texWidth uvs \<Longrightarrow> length d = length d' \<Longrightarrow>
         rd (foldl f d uvs) p = rd (foldl f d' uvs) p"
proof (induction uvs arbitrary: d d' rule: rev_induct)
  case Nil
  then show ?case by simp
next
  case (snoc uv uvs)
  have l: "length (foldl f d uvs) = length (foldl f d' uvs)"
  proof -
    have "length (foldl f e uvs) = length e" for e
      by (induction uvs arbitrary: e) (simp_all add: len)
    with snoc.prems(2) show ?thesis by simp
  qed
  show ?case
  proof (cases "p \<in> pixelBytes (pixelIndex coord texWidth uv)")
    case True
    with same[OF True l] show ?thesis by simp
  next
    case False
    with snoc.prems(1) have "p \<in> pixelsBytes coord texWidth uvs" by simp
    from snoc.IH[OF this snoc.prems(2)] False show ?thesis by (simp add: other)
  qed
qed

lemmas sliceData_other = foldl_other[of coord texWidth "slicePixelData world transform layer texWidth coord",
    OF rd_slicePixelData_other] for coord texWidth world transform layer

lemmas sliceData_same = foldl_same[of coord texWidth "slicePixelData world transform layer texWidth coord",
    OF rd_slicePixelData_other rd_slicePixelData_same length_slicePixelData]
  for coord texWidth world transform layer

lemmas colorData_other = foldl_other[of coord texWidth "colorPixelData texWidth coord rgba",
    OF rd_colorPixelData_other] for coord texWidth rgba

lemmas colorData_same = foldl_same[of coord texWidth "colorPixelData texWidth coord rgba",
    OF rd_colorPixelData_other rd_colorPixelData_same length_colorPixelData]
  for coord texWidth rgba


section \<open>Where the bytes of a tile and of its border lie\<close>

lemma qr_unique:
  fixes q q' a a' b :: int
  assumes "0 \<le> a" "a < b" "0 \<le> a'" "a' < b" "q * b + a = q' * b + a'"
  shows "q = q' \<and> a = a'"
proof -
  have b: "0 < b" using assms(1,2) by simp
  have "(q * b + a) div b = q" using assms(1,2) b by (simp add: div_pos_pos_trivial)
  moreover have "(q' * b + a') div b = q'" using assms(3,4) b by (simp add: div_pos_pos_trivial)
  ultimately have "q = q'" using assms(5) by simp
  with assms(5) show ?thesis by simp
qed

lemma flat_unique:
  fixes row row' col col' ch ch' W :: int
  assumes "0 \<le> col" "col < W" "0 \<le> col'" "col' < W"
    "0 \<le> ch" "ch < 4" "0 \<le> ch'" "ch' < 4"
    "(row * W + col) * 4 + ch = (row' * W + col') * 4 + ch'"
  shows "row = row' \<and> col = col' \<and> ch = ch'"
proof -
  from qr_unique[OF assms(5,6,7,8), of "row * W + col" "row' * W + col'"] assms(9)
  have e: "row * W + col = row' * W + col'" and c: "ch = ch'" by simp_all
  from qr_unique[OF assms(1,2,3,4) e] c show ?thesis by simp
qed

lemma pixelBytes_iff: "p \<in> pixelBytes c \<longleftrightarrow> (\<exists>ch. 0 \<le> ch \<and> ch < 4 \<and> p = c + ch)"
proof
  assume "p \<in> pixelBytes c"
  then consider "p = c + 0" | "p = c + 1" | "p = c + 2" | "p = c + 3" by (auto simp: pixelBytes_def)
  then show "\<exists>ch. 0 \<le> ch \<and> ch < 4 \<and> p = c + ch"
    by cases (rule exI[of _ 0], simp, rule exI[of _ 1], simp, rule exI[of _ 2], simp, rule exI[of _ 3], simp)
next
  assume "\<exists>ch. 0 \<le> ch \<and> ch < 4 \<and> p = c + ch"
  then obtain ch where "0 \<le> ch" "ch < 4" "p = c + ch" by blast
  then have "ch = 0 \<or> ch = 1 \<or> ch = 2 \<or> ch = 3" by arith
  with \<open>p = c + ch\<close> show "p \<in> pixelBytes c" by (auto simp: pixelBytes_def)
qed

lemma foldl_copy2_other:
  assumes "\<And>x. x \<in> set xs \<Longrightarrow> p \<notin> pixelBytes (A x) \<and> p \<notin> pixelBytes (C x)"
  shows "rd (foldl (\<lambda>d x. copy (copy d (A x) (B x)) (C x) (D x)) d xs) p = rd d p"
  using assms
proof (induction xs arbitrary: d)
  case Nil
  show ?case by simp
next
  case (Cons x xs)
  have "rd (foldl (\<lambda>d x. copy (copy d (A x) (B x)) (C x) (D x)) (copy (copy d (A x) (B x)) (C x) (D x)) xs) p
      = rd (copy (copy d (A x) (B x)) (C x) (D x)) p"
    by (rule Cons.IH) (simp add: Cons.prems)
  also have "\<dots> = rd d p" using Cons.prems[of x] by (simp add: rd_copy_other)
  finally show ?case by simp
qed

lemma completed_data_other:
  assumes "p \<notin> ringBytes coords w tsz"
  shows "rd (completedColumns coords w tsz (completedRows coords w tsz d)) p = rd d p"
proof -
  have rows: "p \<notin> pixelBytes (pix coords w x (- 1)) \<and> p \<notin> pixelBytes (pix coords w x (int tsz))"
    if "x \<in> set (map int [0..<tsz])" for x
  proof -
    from that have "(x, - 1) \<in> ringXY tsz" "(x, int tsz) \<in> ringXY tsz" by (auto simp: ringXY_def)
    with assms show ?thesis unfolding ringBytes_def by blast
  qed
  have cols: "p \<notin> pixelBytes (pix coords w (- 1) y) \<and> p \<notin> pixelBytes (pix coords w (int tsz) y)"
    if "y \<in> set [- 1..int tsz]" for y
  proof -
    from that have "(- 1, y) \<in> ringXY tsz" "(int tsz, y) \<in> ringXY tsz" by (auto simp: ringXY_def)
    with assms show ?thesis unfolding ringBytes_def by blast
  qed
  have "rd (completedColumns coords w tsz e) p = rd e p" for e
    unfolding completedColumns_def by (rule foldl_copy2_other) (rule cols)
  moreover have "rd (completedRows coords w tsz d) p = rd d p"
    unfolding completedRows_def by (rule foldl_copy2_other) (rule rows)
  ultimately show ?thesis by simp
qed

lemma length_completed_data [simp]:
  "length (completedColumns coords w tsz (completedRows coords w tsz d)) = length d"
proof -
  have "length (foldl (\<lambda>d x. copy (copy d (A x) (B x)) (C x) (D x)) e xs) = length e"
    for A B C D :: "int \<Rightarrow> int" and e xs
    by (induction xs arbitrary: e) auto
  then show ?thesis by (simp add: completedColumns_def completedRows_def)
qed

lemma cellBytes_iff:
  "p \<in> cellBytes tsz w r c \<longleftrightarrow>
     (\<exists>u v ch. u < tsz \<and> v < tsz \<and> 0 \<le> ch \<and> ch < 4 \<and>
        p = ((1 + int (tsz + 2) * int r + int u) * int w + (1 + int (tsz + 2) * int c + int v)) * 4 + ch)"
proof -
  have e: "pixelIndex (cellOrigin tsz r c) w (u, v)
      = ((1 + int (tsz + 2) * int r + int u) * int w + (1 + int (tsz + 2) * int c + int v)) * 4" for u v
    by (simp add: pixelIndex_def cellOrigin_def algebra_simps)
  have "p \<in> cellBytes tsz w r c \<longleftrightarrow>
      (\<exists>u v. u < tsz \<and> v < tsz \<and> p \<in> pixelBytes (pixelIndex (cellOrigin tsz r c) w (u, v)))"
    unfolding cellBytes_def pixelsBytes_def by fastforce
  then show ?thesis unfolding pixelBytes_iff e by blast
qed

lemma ringBytes_iff:
  "p \<in> ringBytes (cellOrigin tsz r c) w tsz \<longleftrightarrow>
     (\<exists>x y ch. (x, y) \<in> ringXY tsz \<and> 0 \<le> ch \<and> ch < 4 \<and>
        p = ((1 + int (tsz + 2) * int c + y) * int w + (1 + int (tsz + 2) * int r + x)) * 4 + ch)"
proof -
  have e: "pix (cellOrigin tsz r c) w x y
      = ((1 + int (tsz + 2) * int c + y) * int w + (1 + int (tsz + 2) * int r + x)) * 4" for x y
    by (simp add: pix_def cellOrigin_def algebra_simps)
  have "p \<in> ringBytes (cellOrigin tsz r c) w tsz \<longleftrightarrow>
      (\<exists>x y. (x, y) \<in> ringXY tsz \<and> p \<in> pixelBytes (pix (cellOrigin tsz r c) w x y))"
    unfolding ringBytes_def by auto
  then show ?thesis unfolding pixelBytes_iff e by blast
qed

lemma cell_col_bounds:
  assumes "c < n" "(tsz + 2) * n \<le> w" "- 1 \<le> a" "a \<le> int tsz"
  shows "0 \<le> 1 + int (tsz + 2) * int c + a" "1 + int (tsz + 2) * int c + a < int w"
proof -
  have "0 \<le> int (tsz + 2) * int c" by simp
  then show "0 \<le> 1 + int (tsz + 2) * int c + a" using assms(3) by linarith
  have "(tsz + 2) * (c + 1) \<le> (tsz + 2) * n" using assms(1) by (intro mult_le_mono2) simp
  with assms(2) have "(tsz + 2) * c + (tsz + 2) \<le> w" by (simp add: algebra_simps)
  then have "int (tsz + 2) * int c + int (tsz + 2) \<le> int w"
    by (metis of_nat_add of_nat_le_iff of_nat_mult)
  with assms(4) show "1 + int (tsz + 2) * int c + a < int w" by simp
qed

lemma cellBytes_disjoint:
  assumes "r < n" "c < n" "r' < n" "c' < n" "(tsz + 2) * n \<le> w"
    "p \<in> cellBytes tsz w r c" "p \<in> cellBytes tsz w r' c'"
  shows "r = r' \<and> c = c'"
proof -
  from assms(6) obtain u v ch where 1: "u < tsz" "v < tsz" "0 \<le> ch" "ch < 4"
    "p = ((1 + int (tsz + 2) * int r + int u) * int w + (1 + int (tsz + 2) * int c + int v)) * 4 + ch"
    unfolding cellBytes_iff by blast
  from assms(7) obtain u' v' ch' where 2: "u' < tsz" "v' < tsz" "0 \<le> ch'" "ch' < 4"
    "p = ((1 + int (tsz + 2) * int r' + int u') * int w + (1 + int (tsz + 2) * int c' + int v')) * 4 + ch'"
    unfolding cellBytes_iff by blast
  have b1: "0 \<le> 1 + int (tsz + 2) * int c + int v" "1 + int (tsz + 2) * int c + int v < int w"
    using cell_col_bounds[OF assms(2,5), of "int v"] 1(2) by simp_all
  have b2: "0 \<le> 1 + int (tsz + 2) * int c' + int v'" "1 + int (tsz + 2) * int c' + int v' < int w"
    using cell_col_bounds[OF assms(4,5), of "int v'"] 2(2) by simp_all
  have eq: "((1 + int (tsz + 2) * int r + int u) * int w + (1 + int (tsz + 2) * int c + int v)) * 4 + ch
     = ((1 + int (tsz + 2) * int r' + int u') * int w + (1 + int (tsz + 2) * int c' + int v')) * 4 + ch'"
    using 1(5) 2(5) by (rule box_equals[OF refl]) 
  from flat_unique[OF b1 b2 1(3,4) 2(3,4) eq]
  have rows: "1 + int (tsz + 2) * int r + int u = 1 + int (tsz + 2) * int r' + int u'"
    and cols: "1 + int (tsz + 2) * int c + int v = 1 + int (tsz + 2) * int c' + int v'" by simp_all
  have "int r = int r'"
    using qr_unique[of "int u" "int (tsz + 2)" "int u'" "int r" "int r'"] rows 1(1) 2(1)
    by (simp add: algebra_simps)
  moreover have "int c = int c'"
    using qr_unique[of "int v" "int (tsz + 2)" "int v'" "int c" "int c'"] cols 1(2) 2(2)
    by (simp add: algebra_simps)
  ultimately show ?thesis by simp
qed

lemma cellBytes_ring_disjoint:
  assumes "r < n" "c < n" "r' < n" "c' < n" "(tsz + 2) * n \<le> w"
    "p \<in> cellBytes tsz w r c"
  shows "p \<notin> ringBytes (cellOrigin tsz r' c') w tsz"
proof
  assume "p \<in> ringBytes (cellOrigin tsz r' c') w tsz"
  then obtain x y ch' where 2: "(x, y) \<in> ringXY tsz" "0 \<le> ch'" "ch' < 4"
    "p = ((1 + int (tsz + 2) * int c' + y) * int w + (1 + int (tsz + 2) * int r' + x)) * 4 + ch'"
    unfolding ringBytes_iff by blast
  from assms(6) obtain u v ch where 1: "u < tsz" "v < tsz" "0 \<le> ch" "ch < 4"
    "p = ((1 + int (tsz + 2) * int r + int u) * int w + (1 + int (tsz + 2) * int c + int v)) * 4 + ch"
    unfolding cellBytes_iff by blast
  from 2(1) have xy: "- 1 \<le> x" "x \<le> int tsz" "- 1 \<le> y" "y \<le> int tsz"
    and edge: "x = - 1 \<or> x = int tsz \<or> y = - 1 \<or> y = int tsz"
    by (auto simp: ringXY_def)
  have b1: "0 \<le> 1 + int (tsz + 2) * int c + int v" "1 + int (tsz + 2) * int c + int v < int w"
    using cell_col_bounds[OF assms(2,5), of "int v"] 1(2) by simp_all
  have b2: "0 \<le> 1 + int (tsz + 2) * int r' + x" "1 + int (tsz + 2) * int r' + x < int w"
    using cell_col_bounds[OF assms(3,5) xy(1,2)] by simp_all
  have eq: "((1 + int (tsz + 2) * int r + int u) * int w + (1 + int (tsz + 2) * int c + int v)) * 4 + ch
     = ((1 + int (tsz + 2) * int c' + y) * int w + (1 + int (tsz + 2) * int r' + x)) * 4 + ch'"
    using 1(5) 2(4) by (rule box_equals[OF refl])
  from flat_unique[OF b1 b2 1(3,4) 2(2,3) eq]
  have rows: "1 + int (tsz + 2) * int r + int u = 1 + int (tsz + 2) * int c' + y"
    and cols: "1 + int (tsz + 2) * int c + int v = 1 + int (tsz + 2) * int r' + x" by simp_all
  have "1 + int u = 1 + y"
    using qr_unique[of "1 + int u" "int (tsz + 2)" "1 + y" "int r" "int c'"] rows 1(1) xy(3,4)
    by (simp add: algebra_simps)
  moreover have "1 + int v = 1 + x"
    using qr_unique[of "1 + int v" "int (tsz + 2)" "1 + x" "int c" "int r'"] cols 1(2) xy(1,2)
    by (simp add: algebra_simps)
  ultimately show False using edge 1(1,2) by auto
qed

text \<open>The bytes of the pixels of a cell lie inside an image of side \<open>w\<close>.\<close>

lemma cell_pixel_in_range:
  assumes "r < n" "c < n" "(tsz + 2) * n \<le> w" "u < tsz" "v < tsz"
  shows "0 \<le> pixelIndex (cellOrigin tsz r c) w (u, v)"
    "pixelIndex (cellOrigin tsz r c) w (u, v) + 3 < int (4 * w * w)"
proof -
  let ?row = "1 + int (tsz + 2) * int r + int u" and ?col = "1 + int (tsz + 2) * int c + int v"
  have col: "0 \<le> ?col" "?col < int w" using cell_col_bounds[OF assms(2,3), of "int v"] assms(5) by simp_all
  have row: "0 \<le> ?row" "?row < int w" using cell_col_bounds[OF assms(1,3), of "int u"] assms(4) by simp_all
  have idx: "pixelIndex (cellOrigin tsz r c) w (u, v) = (?row * int w + ?col) * 4"
    by (simp add: pixelIndex_def cellOrigin_def algebra_simps)
  show "0 \<le> pixelIndex (cellOrigin tsz r c) w (u, v)" unfolding idx using row(1) col(1) by simp
  have "?row + 1 \<le> int w" using row(2) by simp
  then have "(?row + 1) * int w \<le> int w * int w" by (intro mult_right_mono) simp_all
  then have "?row * int w + ?col < int w * int w" using col(2) by (simp add: algebra_simps)
  then show "pixelIndex (cellOrigin tsz r c) w (u, v) + 3 < int (4 * w * w)"
    unfolding idx by simp
qed


section \<open>The border of a tile off the diagonal of the atlas\<close>


definition oneTile :: "usage texgen" where
  "oneTile = fst (allocationFor (acknowledge (Texgen 1)) (ColorUsage 1))"

lemma alloc_first:
  "allocationFor (acknowledge (Texgen 1)) (ColorUsage 1) =
     (acknowledge (Texgen 1)\<lparr>tileAllocMap := (replicate 7225 0)[0 := 1], usageMap := [ColorUsage 1 \<mapsto> 0]\<rparr>,
      Some (0, 0))"
  apply (simp add: Texgen_def enlargeTexture_def borderTileSize_def acknowledge_def
      allocationFor_def tileAlloc_def Let_def tileCoords_def)
  apply (subst tileAlloc_loop.simps)
  apply (simp add: truthyAt_def)
  done

lemma alloc_second:
  "allocationFor (acknowledge (Texgen 1)\<lparr>tileAllocMap := (replicate 7225 0)[0 := 1], usageMap := [ColorUsage 1 \<mapsto> 0]\<rparr>) (ColorUsage 2) =
     (twoTilesAlloc, Some (0, 1))"
  unfolding twoTilesAlloc_def
  apply (simp add: Texgen_def enlargeTexture_def borderTileSize_def acknowledge_def
      allocationFor_def tileAlloc_def Let_def tileCoords_def)
  apply (subst tileAlloc_loop.simps)
  apply (simp add: truthyAt_def)
  apply (subst tileAlloc_loop.simps)
  apply (simp add: truthyAt_def)
  done

lemma ic2: "imageCoordsFor oneTile (ColorUsage 2) = (twoTilesAlloc, Some (1, 4))"
proof -
  have "borderTileSize twoTilesAlloc = 3"
    by (simp add: twoTilesAlloc_def borderTileSize_def acknowledge_def Texgen_def enlargeTexture_def Let_def)
  then show ?thesis
    unfolding oneTile_def alloc_first fst_conv imageCoordsFor_def alloc_second by simp
qed

lemma tta: "\<not> textureLost twoTilesAlloc" "usageMap twoTilesAlloc (ColorUsage 2) = Some 1"
  "image twoTilesAlloc = 0" "tileSize twoTilesAlloc = 1" "tileCountSqrt twoTilesAlloc = 85"
  "imageHeap twoTilesAlloc 0 = createImageData 256" "borderTileSize twoTilesAlloc = 3"
  by (simp_all add: twoTilesAlloc_def acknowledge_def Texgen_def enlargeTexture_def Let_def borderTileSize_def)

lemma oneTile_fields:
  "width (imageHeap oneTile (image oneTile)) = 256" "image oneTile = 0" "tileSize oneTile = 1"
  "width (imageHeap oneTile 0) = 256"
  unfolding oneTile_def alloc_first fst_conv
  by (simp_all add: acknowledge_def Texgen_def enlargeTexture_def Let_def createImageData_def)

lemma tileOrigin_tta: "tileOrigin twoTilesAlloc 1 = Some (1, 4)"
  by (simp add: tileOrigin_def tileCoords_def tta)

lemma twoTiles_state:
  "fst (colorFaceData oneTile 2 (1, 0, 0, 1)) =
     writeTex twoTilesAlloc 0
        (\<lambda>d. completedColumns (1, 4) 256 1 (completedRows (1, 4) 256 1
                (wr (wr (wr (wr d 1040 255) 1041 0) 1042 0) 1043 255)))"
proof -
  let ?s2 = "writeTex twoTilesAlloc 0 (\<lambda>d. wr (wr (wr (wr d 1040 255) 1041 0) 1042 0) 1043 255)"
  have px: "colorPixel 0 256 (Some (1, 4)) (255, 0, 0, 255) twoTilesAlloc (0, 0) = ?s2"
    by (simp add: colorPixel_def toUint8Clamp_def)
  have p: "\<not> textureLost ?s2" "usageMap ?s2 (ColorUsage 2) = Some 1"
    using tta(1,2) by simp_all
  have to: "tileOrigin ?s2 1 = Some (1, 4)"
    by (simp add: tileOrigin_def tileCoords_def tta)
  have w: "width (imageHeap ?s2 (image ?s2)) = 256" "tileSize ?s2 = 1" "image ?s2 = 0"
    by (simp_all add: tta createImageData_def)
  have cp: "completed ?s2 (ColorUsage 2) =
      writeTex ?s2 0 (\<lambda>d. completedColumns (1, 4) 256 1 (completedRows (1, 4) 256 1 d))"
    unfolding completed_present[OF p] to by (simp add: tta createImageData_def)
  have c: "\<not> textureLost (completed ?s2 (ColorUsage 2))"
        "usageMap (completed ?s2 (ColorUsage 2)) (ColorUsage 2) = Some 1"
    unfolding cp using p by simp_all
  have "fst (colorFaceData oneTile 2 (1, 0, 0, 1)) = completed ?s2 (ColorUsage 2)"
    unfolding colorFaceData_def Let_def oneTile_fields ic2
    by (simp add: px foldl_colorFace_present[OF c])
  also have "\<dots> = writeTex twoTilesAlloc 0
        (\<lambda>d. completedColumns (1, 4) 256 1 (completedRows (1, 4) 256 1
                (wr (wr (wr (wr d 1040 255) 1041 0) 1042 0) 1043 255)))"
    unfolding cp by (simp add: writeTex_def)
  finally show ?thesis .
qed

lemma ring_far: "p < 3072 \<Longrightarrow> p \<notin> ringBytes (1, 4) 256 1"
  by (auto simp: ringBytes_def ringXY_def pixelBytes_def pix_def)

lemma twoTiles_data:
  assumes "p < 3072"
  shows "rd (data (imageHeap (fst (colorFaceData oneTile 2 (1, 0, 0, 1))) 0)) p =
         rd (wr (wr (wr (wr (replicate 262144 0) 1040 255) 1041 0) 1042 0) 1043 255) p"
proof -
  have "data (imageHeap (fst (colorFaceData oneTile 2 (1, 0, 0, 1))) 0) =
      completedColumns (1, 4) 256 1 (completedRows (1, 4) 256 1
        (wr (wr (wr (wr (replicate 262144 0) 1040 255) 1041 0) 1042 0) 1043 255))"
    unfolding twoTiles_state by (simp add: writeTex_def tta createImageData_def)
  then show ?thesis by (simp only: completed_data_other[OF ring_far[OF assms]])
qed

text \<open>C6, at a failing input. The atlas has tile size 1 and is 256 pixels wide; colour
  block 1 holds cell 0, and \<^verbatim>\<open>rebuildOne\<close> then synthesises colour block 2 with the
  colour \<open>(1, 0, 0, 1)\<close>. Its token gets cell 1 (row 0, column 1), whose image
  coordinates are \<open>(1, 4)\<close>. After the synthesis, which ends with
  \<^verbatim>\<open>completed\<close>, the red channel of the one interior pixel of the tile is 255, and the
  red channel of each of the four border pixels next to it (above, below, left, right) is
  still 0: \<^verbatim>\<open>completed\<close> addresses the image with the two coordinates exchanged and
  has written the border of the cell at row 1, column 0 instead.\<close>

theorem completed_border_transposed:
  "image (fst (colorFaceData oneTile 2 (1, 0, 0, 1))) = 0 \<and>
   imageCoordsFor (fst (colorFaceData oneTile 2 (1, 0, 0, 1))) (ColorUsage 2)
     = (fst (colorFaceData oneTile 2 (1, 0, 0, 1)), Some (1, 4)) \<and>
   tilePixel (data (imageHeap (fst (colorFaceData oneTile 2 (1, 0, 0, 1))) 0)) 256 (1, 4) 0 0 0 = 255 \<and>
   tilePixel (data (imageHeap (fst (colorFaceData oneTile 2 (1, 0, 0, 1))) 0)) 256 (1, 4) (- 1) 0 0 = 0 \<and>
   tilePixel (data (imageHeap (fst (colorFaceData oneTile 2 (1, 0, 0, 1))) 0)) 256 (1, 4) 1 0 0 = 0 \<and>
   tilePixel (data (imageHeap (fst (colorFaceData oneTile 2 (1, 0, 0, 1))) 0)) 256 (1, 4) 0 (- 1) 0 = 0 \<and>
   tilePixel (data (imageHeap (fst (colorFaceData oneTile 2 (1, 0, 0, 1))) 0)) 256 (1, 4) 0 1 0 = 0"
proof -
  let ?s = "fst (colorFaceData oneTile 2 (1, 0, 0, 1))"
  have f: "\<not> textureLost ?s" "usageMap ?s (ColorUsage 2) = Some 1" "image ?s = 0"
    "tileOrigin ?s 1 = Some (1, 4)"
    unfolding twoTiles_state by (simp_all add: tta tileOrigin_def tileCoords_def)
  have ic: "imageCoordsFor ?s (ColorUsage 2) = (?s, Some (1, 4))"
    unfolding imageCoordsFor_present'[OF f(1,2)] f(4) ..
  have px: "tilePixel (data (imageHeap ?s 0)) 256 (1, 4) 0 0 0 = 255"
    "tilePixel (data (imageHeap ?s 0)) 256 (1, 4) (- 1) 0 0 = 0"
    "tilePixel (data (imageHeap ?s 0)) 256 (1, 4) 1 0 0 = 0"
    "tilePixel (data (imageHeap ?s 0)) 256 (1, 4) 0 (- 1) 0 = 0"
    "tilePixel (data (imageHeap ?s 0)) 256 (1, 4) 0 1 0 = 0"
    unfolding tilePixel_def by (simp_all add: twoTiles_data rd_wr) (simp_all add: rd_def)
  show ?thesis using f(3) ic px by blast
qed


section \<open>Slices in an atlas that is not lost\<close>


lemma writeTex_writeTex: "writeTex (writeTex s i f) i g = writeTex s i (\<lambda>d. g (f d))"
  by (simp add: writeTex_def)

lemma slicePixel_inrange:
  assumes "0 \<le> pixelIndex coord tw uv"
    "pixelIndex coord tw uv + 3 < int (length (data (imageHeap s ti)))"
  shows "slicePixel world T layer ti tw (Some coord) (s, fl) uv =
     (writeTex s ti (\<lambda>d. slicePixelData world T layer tw coord d uv), layerFlag world T layer fl uv)"
proof -
  obtain pixu pixv where c: "coord = (pixu, pixv)" by (cases coord) auto
  obtain u v where uv: "uv = (u, v)" by (cases uv) auto
  obtain fL fH where fl: "fl = (fL, fH)" by (cases fl) auto
  have idx: "((pixu + int u) * int tw + pixv + int v) * 4 = pixelIndex coord tw uv"
    by (simp add: pixelIndex_def c uv)
  show ?thesis
    using assms
    unfolding slicePixel_def c uv fl option.case prod.case Let_def idx[unfolded c uv]
    by (simp add: slicePixelData_def layerFlag_def Let_def rd_writeColor_alpha)
qed

lemma foldl_slicePixel_inrange:
  assumes "\<And>uv. uv \<in> set uvs \<Longrightarrow> 0 \<le> pixelIndex coord tw uv \<and>
      pixelIndex coord tw uv + 3 < int (length (data (imageHeap s ti)))"
  shows "foldl (slicePixel world T layer ti tw (Some coord)) (s, fl) uvs =
     (writeTex s ti (\<lambda>d. foldl (slicePixelData world T layer tw coord) d uvs),
      foldl (layerFlag world T layer) fl uvs)"
  using assms
proof (induction uvs arbitrary: s fl)
  case Nil
  show ?case by (simp add: writeTex_def)
next
  case (Cons uv uvs)
  let ?s' = "writeTex s ti (\<lambda>d. slicePixelData world T layer tw coord d uv)"
  have 1: "slicePixel world T layer ti tw (Some coord) (s, fl) uv = (?s', layerFlag world T layer fl uv)"
    using Cons.prems[of uv] by (intro slicePixel_inrange) simp_all
  have len: "length (data (imageHeap ?s' ti)) = length (data (imageHeap s ti))" by simp
  have 2: "foldl (slicePixel world T layer ti tw (Some coord)) (?s', layerFlag world T layer fl uv) uvs =
     (writeTex ?s' ti (\<lambda>d. foldl (slicePixelData world T layer tw coord) d uvs),
      foldl (layerFlag world T layer) (layerFlag world T layer fl uv) uvs)"
    by (rule Cons.IH) (simp only: len, rule Cons.prems, simp)
  show ?case by (simp add: 1 2 writeTex_writeTex)
qed


lemma cells_fit: "(tsz + 2) * (tw div (tsz + 2)) \<le> (tw::nat)"
  by (rule times_div_less_eq_dividend)

lemma good_facts:
  assumes "good tsz ti tw s"
  shows "tileCountSqrt s = tw div (tsz + 2)" "0 < tw div (tsz + 2)"
    "(tsz + 2) * (tw div (tsz + 2)) \<le> tw" "borderTileSize s = tsz + 2"
    "length (tileAllocMap s) = (tw div (tsz + 2)) * (tw div (tsz + 2))"
    "\<not> textureLost s" "tileSize s = tsz" "image s = ti" "width (imageHeap s ti) = tw"
    "length (data (imageHeap s ti)) = 4 * tw * tw" "atlas_inv s" "textureSize s = tw"
proof -
  from assms have ok: "allocator_ok s" and b: "borderTileSize s = tsz + 2"
    and tw: "textureSize s = tw"
    by (simp_all add: good_def atlas_inv_def borderTileSize_def)
  from ok have 1: "0 < tileCountSqrt s" "textureSize s div borderTileSize s = tileCountSqrt s"
    "length (tileAllocMap s) = tileCountSqrt s * tileCountSqrt s"
    unfolding allocator_ok_def by blast+
  from 1(2) show c: "tileCountSqrt s = tw div (tsz + 2)" unfolding b tw by simp
  from 1(1) show "0 < tw div (tsz + 2)" unfolding c .
  show "(tsz + 2) * (tw div (tsz + 2)) \<le> tw" by (rule cells_fit)
  show "borderTileSize s = tsz + 2" by (rule b)
  from 1(3) show "length (tileAllocMap s) = (tw div (tsz + 2)) * (tw div (tsz + 2))" unfolding c .
  from assms show "\<not> textureLost s" "tileSize s = tsz" "image s = ti" "width (imageHeap s ti) = tw"
    "length (data (imageHeap s ti)) = 4 * tw * tw" "atlas_inv s" "textureSize s = tw"
    by (simp_all add: good_def)
qed

lemma good_present:
  assumes "good tsz ti tw s" "usageMap s k = Some i"
  shows "i < (tw div (tsz + 2)) * (tw div (tsz + 2))" "tileAllocMap s ! i = 1"
proof -
  from assms(1) have "bijection s" by (simp add: good_def atlas_inv_def)
  with assms(2) have "i < length (tileAllocMap s) \<and> tileAllocMap s ! i = 1"
    unfolding bijection_def by blast
  then show "i < (tw div (tsz + 2)) * (tw div (tsz + 2))" "tileAllocMap s ! i = 1"
    using good_facts(5)[OF assms(1)] by simp_all
qed

lemma good_inj:
  assumes "good tsz ti tw s" "usageMap s k = Some i" "usageMap s k' = Some i"
  shows "k = k'"
proof -
  from assms(1) have "bijection s" by (simp add: good_def atlas_inv_def)
  with assms(2,3) show ?thesis unfolding bijection_def by blast
qed

lemma tileOrigin_good:
  assumes "good tsz ti tw s"
  shows "tileOrigin s i = Some (tileCoord tsz tw i)"
  using good_facts(1,2,4)[OF assms]
  by (simp add: tileOrigin_def tileCoords_def tileCoord_def cellOrigin_def)

lemma div_mod_bounds:
  fixes i n :: nat
  assumes "i < n * n"
  shows "i div n < n" "i mod n < n"
proof -
  from assms have n: "0 < n" by (cases n) auto
  show "i div n < n" using assms n by (simp add: less_mult_imp_div_less)
  show "i mod n < n" using n by simp
qed

lemma tileBytes_disjoint:
  assumes "i < (tw div (tsz + 2)) * (tw div (tsz + 2))" "i' < (tw div (tsz + 2)) * (tw div (tsz + 2))"
    "p \<in> tileBytes tsz tw i" "p \<in> tileBytes tsz tw i'"
  shows "i = i'"
proof -
  let ?n = "tw div (tsz + 2)"
  have "i div ?n = i' div ?n \<and> i mod ?n = i' mod ?n"
    using assms(3,4) unfolding tileBytes_def
    by (rule cellBytes_disjoint[OF div_mod_bounds[OF assms(1)] div_mod_bounds[OF assms(2)], rotated 1]) (rule cells_fit)
  then show ?thesis by (metis div_mult_mod_eq)
qed

lemma tileBytes_ring:
  assumes "i < (tw div (tsz + 2)) * (tw div (tsz + 2))" "i' < (tw div (tsz + 2)) * (tw div (tsz + 2))"
    "p \<in> tileBytes tsz tw i"
  shows "p \<notin> ringBytes (tileCoord tsz tw i') tw tsz"
  using assms(3) unfolding tileBytes_def tileCoord_def
  by (rule cellBytes_ring_disjoint[OF div_mod_bounds[OF assms(1)] div_mod_bounds[OF assms(2)], rotated 1])
     (rule cells_fit)

lemma tile_inrange:
  assumes "i < (tw div (tsz + 2)) * (tw div (tsz + 2))" "uv \<in> set (List.product [0..<tsz] [0..<tsz])"
  shows "0 \<le> pixelIndex (tileCoord tsz tw i) tw uv \<and>
         pixelIndex (tileCoord tsz tw i) tw uv + 3 < int (4 * tw * tw)"
proof -
  obtain u v where uv: "uv = (u, v)" by (cases uv) auto
  with assms(2) have b: "u < tsz" "v < tsz" by auto
  have le: "(tsz + 2) * (tw div (tsz + 2)) \<le> tw" by (rule cells_fit)
  from cell_pixel_in_range[OF div_mod_bounds[OF assms(1)] le b]
  show ?thesis unfolding uv tileCoord_def by simp
qed

lemma length_sliceData [simp]:
  "length (sliceData world T layer tsz tw coord d) = length d"
  by (simp add: sliceData_def)

lemma length_completedData [simp]: "length (completedData coords w tsz d) = length d"
  by (simp add: completedData_def)

lemma sliceData_frame:
  "p \<notin> tileBytes tsz tw i \<Longrightarrow> rd (sliceData world T layer tsz tw (tileCoord tsz tw i) d) p = rd d p"
  unfolding sliceData_def tileBytes_def tileCoord_def cellBytes_def by (rule sliceData_other)

lemma sliceData_indep:
  "p \<in> tileBytes tsz tw i \<Longrightarrow> length d = length d' \<Longrightarrow>
   rd (sliceData world T layer tsz tw (tileCoord tsz tw i) d) p =
   rd (sliceData world T layer tsz tw (tileCoord tsz tw i) d') p"
  unfolding sliceData_def tileBytes_def tileCoord_def cellBytes_def by (rule sliceData_same)

lemma completedData_frame:
  "p \<notin> ringBytes coords w tsz \<Longrightarrow> rd (completedData coords w tsz d) p = rd d p"
  unfolding completedData_def by (rule completed_data_other)

lemma slicePixels_good:
  assumes "good tsz ti tw s" "i < (tw div (tsz + 2)) * (tw div (tsz + 2))"
  shows "slicePixels world T layer tsz ti tw (Some (tileCoord tsz tw i)) s =
     (writeTex s ti (sliceData world T layer tsz tw (tileCoord tsz tw i)), layerFlags world T layer tsz)"
  unfolding slicePixels_def sliceData_def layerFlags_def
  by (rule foldl_slicePixel_inrange) (simp only: good_facts(10)[OF assms(1)] tile_inrange[OF assms(2)])


lemma calcTexCoords_cong:
  assumes "\<not> textureLost s" "\<not> textureLost s'" "usageMap s t = Some i" "usageMap s' t = Some i"
    "tileCountSqrt s' = tileCountSqrt s" "uvFields s' = uvFields s"
  shows "snd (calcTexCoords s' t f) = snd (calcTexCoords s t f)"
  using assms(5,6)
  by (simp add: calcTexCoords_def uvFor_def allocationFor_known[OF assms(1,3)]
      allocationFor_known[OF assms(2,4)] tileCoords_def Let_def uvFields_def)

lemma pushQuad_cong:
  assumes "\<not> textureLost s" "\<not> textureLost s'" "usageMap s t = Some i" "usageMap s' t = Some i"
    "tileCountSqrt s' = tileCountSqrt s" "uvFields s' = uvFields s"
  shows "snd (pushQuad s' v tc f T dp t) = snd (pushQuad s v tc f T dp t)"
  using calcTexCoords_cong[OF assms, of f]
  by (auto simp: pushQuad_def split: prod.splits)

lemma sliceGeom_cong:
  assumes "\<not> textureLost s" "\<not> textureLost s'"
    "fst F \<or> snd F \<Longrightarrow> \<exists>i. usageMap s (SliceUsage blockID dimName layer) = Some i \<and>
                               usageMap s' (SliceUsage blockID dimName layer) = Some i"
    "tileCountSqrt s' = tileCountSqrt s" "uvFields s' = uvFields s"
  shows "sliceGeom s' op blockID tsz dimName layer T F arr = sliceGeom s op blockID tsz dimName layer T F arr"
proof (cases "fst F \<or> snd F")
  case False
  then show ?thesis by (simp add: sliceGeom_def split: prod.splits)
next
  case True
  from assms(3)[OF True] obtain i where i: "usageMap s (SliceUsage blockID dimName layer) = Some i"
    "usageMap s' (SliceUsage blockID dimName layer) = Some i" by blast
  show ?thesis
    unfolding sliceGeom_def pushQuad_cong[OF assms(1,2) i assms(4,5)] ..
qed

lemma tileOrigin_writeTex [simp]: "tileOrigin (writeTex s i f) j = tileOrigin s j"
  by (simp add: tileOrigin_def tileCoords_def)

lemma uvFields_writeTex [simp]: "uvFields (writeTex s i f) = uvFields s"
  by (simp add: uvFields_def)

lemma if_pair: "(if c then (a, x) else (a, y)) = (a, if c then x else y)"
  by simp

lemma completed_good:
  assumes g: "good tsz ti tw s" and u: "usageMap s t = Some i"
  shows "completed (writeTex s ti f) t =
         writeTex s ti (\<lambda>d. completedData (tileCoord tsz tw i) tw tsz (f d))"
proof -
  let ?s2 = "writeTex s ti f"
  have p: "\<not> textureLost ?s2" "usageMap ?s2 t = Some i"
    using good_facts(6)[OF g] u by simp_all
  have f: "image ?s2 = ti" "width (imageHeap ?s2 ti) = tw" "tileSize ?s2 = tsz"
    using good_facts(7,8,9)[OF g] by simp_all
  show ?thesis
    unfolding completed_present[OF p] tileOrigin_writeTex tileOrigin_good[OF g] option.case f
    by (simp add: writeTex_writeTex completedData_def)
qed

lemma sliceWorld_present:
  assumes g: "good tsz ti tw s" and u: "usageMap s (SliceUsage blockID dimName layer) = Some i"
  shows "sliceWorld world op blockID tsz ti tw dimName layer T (s, arr) =
     (if \<not> fst (layerFlags world T layer tsz) \<and> \<not> snd (layerFlags world T layer tsz)
      then deallocateUsage (writeTex s ti (sliceData world T layer tsz tw (tileCoord tsz tw i)))
             (SliceUsage blockID dimName layer)
      else writeTex s ti (\<lambda>d. completedData (tileCoord tsz tw i) tw tsz
                                 (sliceData world T layer tsz tw (tileCoord tsz tw i) d)),
      sliceGeom s op blockID tsz dimName layer T (layerFlags world T layer tsz) arr)"
proof -
  let ?t = "SliceUsage blockID dimName layer"
  let ?F = "layerFlags world T layer tsz"
  let ?c = "tileCoord tsz tw i"
  let ?s3 = "writeTex s ti (\<lambda>d. completedData ?c tw tsz (sliceData world T layer tsz tw ?c d))"
  obtain tL tH vL vH where arr: "arr = (tL, tH, vL, vH)" by (cases arr) auto
  obtain fL fH where F: "?F = (fL, fH)" by (cases ?F) auto
  have nl: "\<not> textureLost s" by (rule good_facts(6)[OF g])
  have ic: "imageCoordsFor s ?t = (s, Some ?c)"
    unfolding imageCoordsFor_present'[OF nl u] tileOrigin_good[OF g] ..
  have sp: "slicePixels world T layer tsz ti tw (Some ?c) s =
      (writeTex s ti (sliceData world T layer tsz tw ?c), fL, fH)"
    unfolding slicePixels_good[OF g good_present(1)[OF g u]] F ..
  have cp: "completed (writeTex s ti (sliceData world T layer tsz tw ?c)) ?t = ?s3"
    by (rule completed_good[OF g u])
  have p3: "\<not> textureLost ?s3" "usageMap ?s3 ?t = Some i" using nl u by simp_all
  have pq: "pushQuad ?s3 v tc f T dp ?t = (?s3, snd (pushQuad s v tc f T dp ?t))" for v tc f dp
  proof -
    have "fst (pushQuad ?s3 v tc f T dp ?t) = ?s3" by (rule pushQuad_present[OF p3])
    moreover have "snd (pushQuad ?s3 v tc f T dp ?t) = snd (pushQuad s v tc f T dp ?t)"
      by (rule pushQuad_cong[OF nl p3(1) u p3(2)]) simp_all
    ultimately show ?thesis by (metis prod.collapse)
  qed
  show ?thesis
  proof (cases "\<not> fL \<and> \<not> fH")
    case True
    then show ?thesis
      unfolding sliceWorld_def arr prod.case Let_def ic sp F
      by (simp add: sliceGeom_def)
  next
    case False
    then show ?thesis
      unfolding sliceWorld_def arr prod.case Let_def ic sp F cp pq if_pair
      by (auto simp: sliceGeom_def split: prod.splits)
  qed
qed


section \<open>Lost textures stay lost\<close>

lemma slicePixel_lost:
  "textureLost (fst (slicePixel world T layer ti tw coord acc uv)) = textureLost (fst acc)"
  by (auto simp: slicePixel_def Let_def split: option.splits prod.splits)

lemma slicePixels_lost:
  "textureLost (fst (slicePixels world T layer tsz ti tw coord s)) = textureLost s"
proof -
  have l: "textureLost (fst (foldl (slicePixel world T layer ti tw coord) acc uvs)) = textureLost (fst acc)"
    for acc uvs
    by (induction uvs arbitrary: acc) (simp_all add: slicePixel_lost)
  show ?thesis unfolding slicePixels_def l by simp
qed

lemma imageCoordsFor_lost: "textureLost s \<Longrightarrow> imageCoordsFor s t = (s, Some (1, 1))"
  by (simp add: imageCoordsFor_def allocationFor_def)

lemma completed_lost: "textureLost s \<Longrightarrow> textureLost (completed s t)"
  by (simp add: completed_def imageCoordsFor_lost Let_def)

lemma pushQuad_lost: "textureLost s \<Longrightarrow> fst (pushQuad s v tc f T dp t) = s"
  by (simp add: pushQuad_def calcTexCoords_def uvFor_def allocationFor_def Let_def)

lemma deallocateUsage_lost: "textureLost s \<Longrightarrow> deallocateUsage s t = s"
  by (simp add: deallocateUsage_def)

lemma sliceWorld_lost_alloc:
  assumes "textureLost (fst (imageCoordsFor s (SliceUsage blockID dimName layer)))"
  shows "textureLost (fst (sliceWorld world op blockID tsz ti tw dimName layer T (s, arr)))"
proof -
  obtain tL tH vL vH where arr: "arr = (tL, tH, vL, vH)" by (cases arr) auto
  obtain s1 coord where ic: "imageCoordsFor s (SliceUsage blockID dimName layer) = (s1, coord)"
    by (cases "imageCoordsFor s (SliceUsage blockID dimName layer)") auto
  with assms have l1: "textureLost s1" by simp
  obtain s2 fL fH where sp: "slicePixels world T layer tsz ti tw coord s1 = (s2, fL, fH)"
    by (cases "slicePixels world T layer tsz ti tw coord s1") auto
  have l2: "textureLost s2" using slicePixels_lost[of world T layer tsz ti tw coord s1] l1 sp by simp
  have l3: "textureLost (completed s2 (SliceUsage blockID dimName layer))"
    by (rule completed_lost[OF l2])
  let ?t = "SliceUsage blockID dimName layer"
  let ?s3 = "completed s2 ?t"
  let ?X1 = "if fL \<and> (\<not> op \<or> layer = 0)
             then pushQuad ?s3 vL tL False T (of_int layer / of_nat tsz) ?t else (?s3, vL, tL)"
  have q: "fst (if c then pushQuad ?s3 v tc f T dp ?t else (?s3, v, tc)) = ?s3" for c v tc f dp
    using pushQuad_lost[OF l3, of v tc f T dp ?t] by simp
  obtain s4 vL' tL' where x1: "?X1 = (s4, vL', tL')" by (cases ?X1) auto
  have s4: "s4 = ?s3" using q[of "fL \<and> (\<not> op \<or> layer = 0)" vL tL False "of_int layer / of_nat tsz"]
    unfolding x1 by simp
  let ?X2 = "if fH \<and> (\<not> op \<or> layer = int tsz - 1)
             then pushQuad ?s3 vH tH True T (of_int (layer + 1) / of_nat tsz) ?t else (?s3, vH, tH)"
  obtain s5 vH' tH' where x2: "?X2 = (s5, vH', tH')" by (cases ?X2) auto
  have s5: "s5 = ?s3" using q[of "fH \<and> (\<not> op \<or> layer = int tsz - 1)" vH tH True "of_int (layer + 1) / of_nat tsz"]
    unfolding x2 by simp
  show ?thesis
  proof (cases "\<not> fL \<and> \<not> fH")
    case True
    then show ?thesis
      unfolding sliceWorld_def arr prod.case Let_def ic sp
      by (simp add: deallocateUsage_lost[OF l2] l2)
  next
    case False
    have "sliceWorld world op blockID tsz ti tw dimName layer T (s, arr) = (s5, tL', tH', vL', vH')"
      unfolding sliceWorld_def arr prod.case Let_def ic sp if_not_P[OF False] x1 s4 x2 ..
    then show ?thesis using l3 s5 by simp
  qed
qed

lemma sliceWorld_lost:
  "textureLost s \<Longrightarrow> textureLost (fst (sliceWorld world op blockID tsz ti tw dimName layer T (s, arr)))"
  by (rule sliceWorld_lost_alloc) (simp add: imageCoordsFor_lost)

section \<open>Allocation in a good atlas\<close>

lemma allocationFor_idem:
  assumes "\<not> textureLost (fst (allocationFor s t))"
  shows "allocationFor (fst (allocationFor s t)) t = allocationFor s t"
proof (cases "textureLost s \<or> usageMap s t \<noteq> None")
  case True
  then show ?thesis by (auto simp: allocationFor_def)
next
  case False
  then have nl: "\<not> textureLost s" and fr: "usageMap s t = None" by simp_all
  from tileAlloc_loop_cases[of s 0] show ?thesis
  proof (elim disjE exE)
    assume e: "tileAlloc_loop s 0 = (enlargeTexture s, 0, True)"
    have "textureLost (fst (allocationFor s t))"
      by (simp add: allocationFor_def nl fr tileAlloc_def e enlargeTexture_def Let_def)
    with assms show ?thesis by simp
  next
    fix p
    assume e: "tileAlloc_loop s 0 =
      (s\<lparr>tileAllocMap := (tileAllocMap s)[p := 1], freePointer := p\<rparr>, p, False)"
    show ?thesis
      by (simp add: allocationFor_def nl fr tileAlloc_def e Let_def tileCoords_def)
  qed
qed

lemma imageCoordsFor_idem:
  assumes "\<not> textureLost (fst (imageCoordsFor s t))"
  shows "imageCoordsFor (fst (imageCoordsFor s t)) t = imageCoordsFor s t"
proof -
  have f: "fst (imageCoordsFor s t) = fst (allocationFor s t)"
    by (simp add: imageCoordsFor_def split: prod.splits)
  from assms have "allocationFor (fst (allocationFor s t)) t = allocationFor s t"
    unfolding f by (rule allocationFor_idem)
  then show ?thesis unfolding f by (simp add: imageCoordsFor_def split: prod.splits)
qed

lemma sliceWorld_alloc:
  assumes "\<not> textureLost (fst (imageCoordsFor s (SliceUsage blockID dimName layer)))"
  shows "sliceWorld world op blockID tsz ti tw dimName layer T (s, arr) =
         sliceWorld world op blockID tsz ti tw dimName layer T
           (fst (imageCoordsFor s (SliceUsage blockID dimName layer)), arr)"
  unfolding sliceWorld_def prod.case Let_def imageCoordsFor_idem[OF assms] ..

lemma alloc_good_fresh:
  assumes ok: "allocator_ok s" and nls: "\<not> textureLost s" and None: "usageMap s t = None"
    and True: "\<exists>i < length (tileAllocMap s). tileAllocMap s ! i = 0"
  shows "\<exists>j < length (tileAllocMap s). tileAllocMap s ! j = 0 \<and>
      allocationFor s t =
         (s\<lparr>tileAllocMap := (tileAllocMap s)[j := 1], freePointer := j,
           usageMap := (usageMap s)(t \<mapsto> j)\<rparr>, Some (j div tileCountSqrt s, j mod tileCountSqrt s))"
proof -
  from allocationFor_fresh[OF ok nls None True] obtain j where
        j0: "j < length (tileAllocMap s) \<and>
          tileAllocMap s ! ((freePointer s + j) mod length (tileAllocMap s)) = 0 \<and>
          (\<forall>j' < j. tileAllocMap s ! ((freePointer s + j') mod length (tileAllocMap s)) = 1) \<and>
          allocationFor s t =
             (s\<lparr>tileAllocMap := (tileAllocMap s)[(freePointer s + j) mod length (tileAllocMap s) := 1],
                freePointer := (freePointer s + j) mod length (tileAllocMap s),
                usageMap := (usageMap s)(t \<mapsto> (freePointer s + j) mod length (tileAllocMap s))\<rparr>,
              Some (((freePointer s + j) mod length (tileAllocMap s)) div tileCountSqrt s,
                    ((freePointer s + j) mod length (tileAllocMap s)) mod tileCountSqrt s))"
    unfolding Bex_def by (elim exE) 
  note j = j0[THEN conjunct1] j0[THEN conjunct2, THEN conjunct1]
  note j3 = j0[THEN conjunct2, THEN conjunct2, THEN conjunct2]
  have lt: "(freePointer s + j) mod length (tileAllocMap s) < length (tileAllocMap s)"
    using j(1) by (intro mod_less_divisor) auto
  show ?thesis
    apply (rule exI[of _ "(freePointer s + j) mod length (tileAllocMap s)"])
    apply (intro conjI)
      apply (rule lt)
     apply (rule j(2))
    apply (rule j3)
    done
qed

lemma alloc_good:
  assumes g: "good tsz ti tw s" and nl: "\<not> textureLost (fst (imageCoordsFor s t))"
  obtains (present) i where "usageMap s t = Some i" "fst (imageCoordsFor s t) = s"
  | (fresh) j where "usageMap s t = None" "j < length (tileAllocMap s)" "tileAllocMap s ! j = 0"
      "fst (imageCoordsFor s t) =
         s\<lparr>tileAllocMap := (tileAllocMap s)[j := 1], freePointer := j,
           usageMap := (usageMap s)(t \<mapsto> j)\<rparr>"
proof -
  have f: "fst (imageCoordsFor s t) = fst (allocationFor s t)"
    by (simp add: imageCoordsFor_def split: prod.splits)
  have ok: "allocator_ok s" and nls: "\<not> textureLost s"
    using g by (simp_all add: good_def atlas_inv_def)
  show thesis
  proof (cases "usageMap s t")
    case (Some i)
    have "fst (imageCoordsFor s t) = s" unfolding f allocationFor_known[OF nls Some] by (rule fst_conv)
    with Some show thesis by (rule present)
  next
    case None
    show thesis
    proof (cases "\<exists>i < length (tileAllocMap s). tileAllocMap s ! i = 0")
      case True
      from alloc_good_fresh[OF ok nls None True] obtain j where
        j: "j < length (tileAllocMap s) \<and> tileAllocMap s ! j = 0 \<and>
          allocationFor s t =
           (s\<lparr>tileAllocMap := (tileAllocMap s)[j := 1], freePointer := j,
             usageMap := (usageMap s)(t \<mapsto> j)\<rparr>, Some (j div tileCountSqrt s, j mod tileCountSqrt s))"
        unfolding Bex_def by (elim exE)
      have "fst (imageCoordsFor s t) =
         s\<lparr>tileAllocMap := (tileAllocMap s)[j := 1], freePointer := j,
           usageMap := (usageMap s)(t \<mapsto> j)\<rparr>"
        unfolding f j[THEN conjunct2, THEN conjunct2] by (rule fst_conv)
      with None j[THEN conjunct1] j[THEN conjunct2, THEN conjunct1] show thesis by (rule fresh)
    next
      case False
      then have full: "\<forall>i < length (tileAllocMap s). tileAllocMap s ! i \<noteq> 0" by simp
      have e: "fst (allocationFor s t) = enlargeTexture s"
        unfolding allocationFor_grow[OF ok nls None full] by (rule fst_conv)
      have l: "textureLost (enlargeTexture s)" by (simp add: enlargeTexture_def Let_def)
      have "textureLost (fst (imageCoordsFor s t))" unfolding f e by (rule l)
      with nl show thesis by (rule notE)
    qed
  qed
qed

lemma good_alloc:
  assumes g: "good tsz ti tw s" and fr: "usageMap s t = None"
    and j: "j < length (tileAllocMap s)" "tileAllocMap s ! j = 0"
  shows "good tsz ti tw (s\<lparr>tileAllocMap := (tileAllocMap s)[j := 1], freePointer := j,
           usageMap := (usageMap s)(t \<mapsto> j)\<rparr>)"
proof -
  have inv: "atlas_inv s" and nl: "\<not> textureLost s" using g by (simp_all add: good_def)
  have a: "atlas_inv (s\<lparr>tileAllocMap := (tileAllocMap s)[j := 1], freePointer := j,
           usageMap := (usageMap s)(t \<mapsto> j)\<rparr>)"
    by (rule allocate_step_inv[OF inv nl fr j])
  show ?thesis unfolding good_def
    using a good_facts(6,7,8,9,10,12)[OF g] by simp
qed

lemma good_writeTex:
  assumes g: "good tsz ti tw s" and len: "\<And>d. length (f d) = length d"
  shows "good tsz ti tw (writeTex s ti f)"
proof -
  have a: "atlas_inv (writeTex s ti f)" unfolding writeTex_def
    by (rule store_inv) (rule good_facts(11)[OF g])
  show ?thesis unfolding good_def
    using a good_facts(6,7,8,9,10,12)[OF g] by (simp add: len)
qed

lemma deallocateUsage_fields [simp]:
  "textureLost (deallocateUsage s t) = textureLost s" "tileSize (deallocateUsage s t) = tileSize s"
  "image (deallocateUsage s t) = image s" "textureSize (deallocateUsage s t) = textureSize s"
  "imageHeap (deallocateUsage s t) = imageHeap s" "uvFields (deallocateUsage s t) = uvFields s"
  "tileCountSqrt (deallocateUsage s t) = tileCountSqrt s"
  by (simp_all add: deallocateUsage_def tileFree_def uvFields_def Let_def split: option.splits)

lemma good_dealloc:
  assumes g: "good tsz ti tw s"
  shows "good tsz ti tw (deallocateUsage s t)"
proof -
  have a: "atlas_inv (deallocateUsage s t)" by (rule deallocateUsage_inv) (rule good_facts(11)[OF g])
  show ?thesis unfolding good_def
    using a good_facts(6,7,8,9,10,12)[OF g] by simp
qed


section \<open>One slice in a good atlas\<close>

lemma alloc_step:
  assumes g: "good tsz ti tw s" and nla: "\<not> textureLost (fst (imageCoordsFor s t))"
  obtains i where "good tsz ti tw (fst (imageCoordsFor s t))"
    "usageMap (fst (imageCoordsFor s t)) t = Some i"
    "imageHeap (fst (imageCoordsFor s t)) = imageHeap s"
    "uvFields (fst (imageCoordsFor s t)) = uvFields s"
    "\<And>k. k \<noteq> t \<Longrightarrow> usageMap (fst (imageCoordsFor s t)) k = usageMap s k"
    "usageMap s t = Some i \<or>
       (usageMap s t = None \<and> i < length (tileAllocMap s) \<and> tileAllocMap s ! i = 0)"
    "tileAllocMap (fst (imageCoordsFor s t)) = (tileAllocMap s)[i := 1]"
proof (rule alloc_good[OF g nla])
  fix i
  assume u: "usageMap s t = Some i" and e: "fst (imageCoordsFor s t) = s"
  have "(tileAllocMap s)[i := 1] = tileAllocMap s"
    using good_present(2)[OF g u] by (metis list_update_id)
  then show thesis
    using that[of i] g u unfolding e by simp
next
  fix j
  assume fr: "usageMap s t = None" and j: "j < length (tileAllocMap s)" "tileAllocMap s ! j = 0"
    and e: "fst (imageCoordsFor s t) =
         s\<lparr>tileAllocMap := (tileAllocMap s)[j := 1], freePointer := j,
           usageMap := (usageMap s)(t \<mapsto> j)\<rparr>"
  show thesis
    using that[of j] good_alloc[OF g fr j] fr j unfolding e by (simp add: uvFields_def)
qed

lemma sliceWorld_form:
  assumes g: "good tsz ti tw s"
    and r: "sliceWorld world op blockID tsz ti tw dimName layer T (s, arr) = (s', arr')"
    and nl: "\<not> textureLost s'"
  obtains sa i where
    "good tsz ti tw sa" "usageMap sa (SliceUsage blockID dimName layer) = Some i"
    "imageHeap sa = imageHeap s" "uvFields sa = uvFields s"
    "\<And>k. k \<noteq> SliceUsage blockID dimName layer \<Longrightarrow> usageMap sa k = usageMap s k"
    "usageMap s (SliceUsage blockID dimName layer) = Some i \<or>
       (usageMap s (SliceUsage blockID dimName layer) = None \<and> i < length (tileAllocMap s) \<and>
        tileAllocMap s ! i = 0)"
    "tileAllocMap sa = (tileAllocMap s)[i := 1]"
    "s' = (if \<not> fst (layerFlags world T layer tsz) \<and> \<not> snd (layerFlags world T layer tsz)
           then deallocateUsage (writeTex sa ti (sliceData world T layer tsz tw (tileCoord tsz tw i)))
                  (SliceUsage blockID dimName layer)
           else writeTex sa ti (\<lambda>d. completedData (tileCoord tsz tw i) tw tsz
                                 (sliceData world T layer tsz tw (tileCoord tsz tw i) d)))"
    "arr' = sliceGeom sa op blockID tsz dimName layer T (layerFlags world T layer tsz) arr"
proof -
  let ?t = "SliceUsage blockID dimName layer"
  let ?sa = "fst (imageCoordsFor s ?t)"
  have nla: "\<not> textureLost ?sa"
  proof
    assume "textureLost ?sa"
    from sliceWorld_lost_alloc[OF this, of world op tsz ti tw T arr] r nl show False by simp
  qed
  have r': "sliceWorld world op blockID tsz ti tw dimName layer T (?sa, arr) = (s', arr')"
    using sliceWorld_alloc[OF nla, of world op tsz ti tw T arr] r by simp
  from alloc_step[OF g nla] obtain i where
    a: "good tsz ti tw ?sa" "usageMap ?sa ?t = Some i" "imageHeap ?sa = imageHeap s"
      "uvFields ?sa = uvFields s" "\<And>k. k \<noteq> ?t \<Longrightarrow> usageMap ?sa k = usageMap s k"
      "usageMap s ?t = Some i \<or> (usageMap s ?t = None \<and> i < length (tileAllocMap s) \<and>
        tileAllocMap s ! i = 0)"
      "tileAllocMap ?sa = (tileAllocMap s)[i := 1]" by metis
  from r'[unfolded sliceWorld_present[OF a(1,2)]]
  have s': "s' = (if \<not> fst (layerFlags world T layer tsz) \<and> \<not> snd (layerFlags world T layer tsz)
           then deallocateUsage (writeTex ?sa ti (sliceData world T layer tsz tw (tileCoord tsz tw i))) ?t
           else writeTex ?sa ti (\<lambda>d. completedData (tileCoord tsz tw i) tw tsz
                                 (sliceData world T layer tsz tw (tileCoord tsz tw i) d)))"
    and arr': "arr' = sliceGeom ?sa op blockID tsz dimName layer T (layerFlags world T layer tsz) arr"
    by simp_all
  show thesis by (rule that[OF a s' arr'])
qed


lemma usageMap_dealloc:
  "\<not> textureLost s \<Longrightarrow> usageMap (deallocateUsage s t) = (usageMap s)(t := None)"
  by (simp add: deallocateUsage_def tileFree_def Let_def split: option.splits)

lemma tileAllocMap_dealloc:
  "\<not> textureLost s \<Longrightarrow> usageMap s t = Some i \<Longrightarrow>
   tileAllocMap (deallocateUsage s t) = (tileAllocMap s)[i := 0]"
  by (simp add: deallocateUsage_def tileFree_def Let_def)

lemma sliceStable_cong:
  assumes "sliceStable world tsz tw dimName layer i d" "length d' = length d"
    "\<And>p. p \<in> tileBytes tsz tw i \<Longrightarrow> rd d' p = rd d p"
  shows "sliceStable world tsz tw dimName layer i d'"
  unfolding sliceStable_def
proof
  fix p assume p: "p \<in> tileBytes tsz tw i"
  have "rd (sliceData world (tileMapping dimName) layer tsz tw (tileCoord tsz tw i) d') p =
        rd (sliceData world (tileMapping dimName) layer tsz tw (tileCoord tsz tw i) d) p"
    by (rule sliceData_indep[OF p assms(2)])
  also have "\<dots> = rd d p" using assms(1) p unfolding sliceStable_def by blast
  also have "\<dots> = rd d' p" using assms(3)[OF p] by simp
  finally show "rd (sliceData world (tileMapping dimName) layer tsz tw (tileCoord tsz tw i) d') p = rd d' p" .
qed

text \<open>The properties of one slice that ends with the texture not lost.\<close>

lemma slice_step:
  assumes g: "good tsz ti tw s"
    and r: "sliceWorld world op blockID tsz ti tw dimName layer (tileMapping dimName) (s, arr) = (s', arr')"
    and nl: "\<not> textureLost s'"
  shows "good tsz ti tw s'" (is ?G)
    and "uvFields s' = uvFields s" (is ?U)
    and "arr' = sliceGeom s' op blockID tsz dimName layer (tileMapping dimName)
                  (layerFlags world (tileMapping dimName) layer tsz) arr" (is ?A)
    and "\<forall>k. k \<noteq> SliceUsage blockID dimName layer \<longrightarrow> usageMap s' k = usageMap s k" (is ?O)
    and "sliceOK world blockID tsz ti tw s' (dimName, layer)" (is ?K)
    and "\<forall>i p. i < length (tileAllocMap s) \<and> tileAllocMap s ! i = 1 \<and>
            usageMap s (SliceUsage blockID dimName layer) \<noteq> Some i \<and> p \<in> tileBytes tsz tw i
            \<longrightarrow> rd (data (imageHeap s' ti)) p = rd (data (imageHeap s ti)) p" (is ?FR)
    and "sliceOK world blockID tsz ti tw s (dimName, layer) \<longrightarrow> sameTiles tsz ti tw s s'" (is ?S)
proof -
  let ?t = "SliceUsage blockID dimName layer"
  let ?T = "tileMapping dimName"
  let ?F = "layerFlags world ?T layer tsz"
  let ?n = "tw div (tsz + 2)"
  from sliceWorld_form[OF g r nl] obtain sa i where
    a: "good tsz ti tw sa" "usageMap sa ?t = Some i" "imageHeap sa = imageHeap s"
      "uvFields sa = uvFields s" "\<And>k. k \<noteq> ?t \<Longrightarrow> usageMap sa k = usageMap s k"
      "usageMap s ?t = Some i \<or> (usageMap s ?t = None \<and> i < length (tileAllocMap s) \<and>
        tileAllocMap s ! i = 0)"
      "tileAllocMap sa = (tileAllocMap s)[i := 1]"
    and s': "s' = (if \<not> fst ?F \<and> \<not> snd ?F
           then deallocateUsage (writeTex sa ti (sliceData world ?T layer tsz tw (tileCoord tsz tw i))) ?t
           else writeTex sa ti (\<lambda>d. completedData (tileCoord tsz tw i) tw tsz
                                 (sliceData world ?T layer tsz tw (tileCoord tsz tw i) d)))"
    and arr': "arr' = sliceGeom sa op blockID tsz dimName layer ?T ?F arr"
    by metis
  let ?c = "tileCoord tsz tw i"
  let ?w1 = "writeTex sa ti (sliceData world ?T layer tsz tw ?c)"
  let ?w2 = "writeTex sa ti (\<lambda>d. completedData ?c tw tsz (sliceData world ?T layer tsz tw ?c d))"
  have nla: "\<not> textureLost sa" by (rule good_facts(6)[OF a(1)])
  have i: "i < ?n * ?n" by (rule good_present(1)[OF a(1,2)])
  have len: "length (tileAllocMap s) = ?n * ?n" by (rule good_facts(5)[OF g])
  have g1: "good tsz ti tw ?w1" by (rule good_writeTex[OF a(1)]) simp
  have g2: "good tsz ti tw ?w2" by (rule good_writeTex[OF a(1)]) simp
  show G: ?G unfolding s' using good_dealloc[OF g1] g2 by simp
  show U: ?U unfolding s' using a(4) by simp
  have um: "usageMap s' = (if \<not> fst ?F \<and> \<not> snd ?F then (usageMap sa)(?t := None) else usageMap sa)"
    unfolding s' using nla by (simp add: usageMap_dealloc)
  show ?A
  proof -
    have "sliceGeom s' op blockID tsz dimName layer ?T ?F arr =
          sliceGeom sa op blockID tsz dimName layer ?T ?F arr"
    proof (rule sliceGeom_cong[OF nla nl])
      show "tileCountSqrt s' = tileCountSqrt sa"
        using good_facts(1)[OF G] good_facts(1)[OF a(1)] by simp
      show "uvFields s' = uvFields sa" using U a(4) by simp
    next
      assume "fst ?F \<or> snd ?F"
      then show "\<exists>i. usageMap sa ?t = Some i \<and> usageMap s' ?t = Some i"
        using a(2) um by auto
    qed
    then show ?thesis using arr' by simp
  qed
  show ?O using um a(5) by simp
  have d': "data (imageHeap s' ti) =
      (if \<not> fst ?F \<and> \<not> snd ?F then sliceData world ?T layer tsz tw ?c (data (imageHeap s ti))
       else completedData ?c tw tsz (sliceData world ?T layer tsz tw ?c (data (imageHeap s ti))))"
    unfolding s' by (simp add: a(3))
  have inner: "rd (data (imageHeap s' ti)) p = rd (sliceData world ?T layer tsz tw ?c (data (imageHeap s ti))) p"
    if "p \<in> tileBytes tsz tw i" for p
    unfolding d' using completedData_frame[OF tileBytes_ring[OF i i that]] by simp
  have outer: "rd (data (imageHeap s' ti)) p = rd (data (imageHeap s ti)) p"
    if "p \<in> tileBytes tsz tw j" "j < ?n * ?n" "j \<noteq> i" for p j
  proof -
    have 1: "p \<notin> tileBytes tsz tw i" using tileBytes_disjoint[OF that(2) i that(1)] that(3) by blast
    have 2: "p \<notin> ringBytes ?c tw tsz" by (rule tileBytes_ring[OF that(2) i that(1)])
    show ?thesis unfolding d' by (simp add: completedData_frame[OF 2] sliceData_frame[OF 1])
  qed
  have lend: "length (data (imageHeap s' ti)) = length (data (imageHeap s ti))"
    unfolding d' by simp
  show K: ?K
  proof (cases "fst ?F \<or> snd ?F")
    case False
    then show ?thesis using um by (simp add: sliceOK_def)
  next
    case True
    have "sliceStable world tsz tw dimName layer i (data (imageHeap s' ti))"
      unfolding sliceStable_def
    proof
      fix p assume p: "p \<in> tileBytes tsz tw i"
      have "rd (sliceData world ?T layer tsz tw ?c (data (imageHeap s' ti))) p =
            rd (sliceData world ?T layer tsz tw ?c (data (imageHeap s ti))) p"
        by (rule sliceData_indep[OF p lend])
      then show "rd (sliceData world ?T layer tsz tw ?c (data (imageHeap s' ti))) p =
            rd (data (imageHeap s' ti)) p" using inner[OF p] by simp
    qed
    then show ?thesis using True um a(2) by (auto simp: sliceOK_def)
  qed
  show ?FR
  proof (intro allI impI, elim conjE)
    fix j p
    assume j: "j < length (tileAllocMap s)" "tileAllocMap s ! j = 1" "usageMap s ?t \<noteq> Some j"
      "p \<in> tileBytes tsz tw j"
    have "j \<noteq> i" using a(6) j(2,3) by auto
    then show "rd (data (imageHeap s' ti)) p = rd (data (imageHeap s ti)) p"
      using outer[OF j(4)] j(1) len by simp
  qed
  show ?S
  proof
    assume ok: "sliceOK world blockID tsz ti tw s (dimName, layer)"
    show "sameTiles tsz ti tw s s'"
    proof (cases "fst ?F \<or> snd ?F")
      case True
      with ok obtain i0 where i0: "usageMap s ?t = Some i0"
        "sliceStable world tsz tw dimName layer i0 (data (imageHeap s ti))"
        by (auto simp: sliceOK_def)
      with a(6) have ii: "i0 = i" by auto
      have u: "usageMap s' = usageMap s"
      proof
        fix k show "usageMap s' k = usageMap s k"
          using um True a(2) a(5)[of k] i0(1) ii by (cases "k = ?t") auto
      qed
      have m: "tileAllocMap s' = tileAllocMap s"
      proof -
        have "tileAllocMap s' = tileAllocMap sa" unfolding s' using True by auto
        also have "\<dots> = tileAllocMap s"
          unfolding a(7) using good_present(2)[OF g i0(1)] ii by (metis list_update_id)
        finally show ?thesis .
      qed
      have b: "rd (data (imageHeap s' ti)) p = rd (data (imageHeap s ti)) p"
        if "j < length (tileAllocMap s)" "tileAllocMap s ! j = 1" "p \<in> tileBytes tsz tw j" for j p
      proof (cases "j = i")
        case True
        with that(3) have p: "p \<in> tileBytes tsz tw i" by simp
        show ?thesis using inner[OF p] i0(2) p unfolding sliceStable_def ii by simp
      next
        case False
        then show ?thesis using outer[OF that(3)] that(1) len by simp
      qed
      show ?thesis unfolding sameTiles_def using u m U b by blast
    next
      case False
      with ok have n: "usageMap s ?t = None" by (simp add: sliceOK_def)
      with a(6) have fr: "i < length (tileAllocMap s)" "tileAllocMap s ! i = 0" by auto
      have u: "usageMap s' = usageMap s"
      proof
        fix k show "usageMap s' k = usageMap s k"
          using um False a(5)[of k] n by (cases "k = ?t") auto
      qed
      have m: "tileAllocMap s' = tileAllocMap s"
      proof -
        have "tileAllocMap s' = (tileAllocMap sa)[i := 0]"
          unfolding s' using False nla a(2) by (simp add: tileAllocMap_dealloc)
        also have "\<dots> = (tileAllocMap s)[i := 0]" unfolding a(7) by simp
        also have "\<dots> = tileAllocMap s" using fr(2) by (metis list_update_id)
        finally show ?thesis .
      qed
      have b: "rd (data (imageHeap s' ti)) p = rd (data (imageHeap s ti)) p"
        if "j < length (tileAllocMap s)" "tileAllocMap s ! j = 1" "p \<in> tileBytes tsz tw j" for j p
      proof -
        have "j \<noteq> i" using fr(2) that(2) by auto
        then show ?thesis using outer[OF that(3)] that(1) len by simp
      qed
      show ?thesis unfolding sameTiles_def using u m U b by blast
    qed
  qed
qed

text \<open>A slice that finds its token or a free cell does not lose the texture.\<close>

lemma imageCoordsFor_nolost:
  assumes g: "good tsz ti tw s"
    and f: "usageMap s t \<noteq> None \<or> (\<exists>i < length (tileAllocMap s). tileAllocMap s ! i = 0)"
  shows "\<not> textureLost (fst (imageCoordsFor s t))"
proof (cases "usageMap s t")
  case (Some i)
  show ?thesis unfolding imageCoordsFor_present'[OF good_facts(6)[OF g] Some]
    using good_facts(6)[OF g] by simp
next
  case None
  have ok: "allocator_ok s" using g by (simp add: good_def atlas_inv_def)
  from f None have fr: "\<exists>i < length (tileAllocMap s). tileAllocMap s ! i = 0" by simp
  from alloc_good_fresh[OF ok good_facts(6)[OF g] None fr] obtain j where
    j: "j < length (tileAllocMap s) \<and> tileAllocMap s ! j = 0 \<and>
      allocationFor s t =
       (s\<lparr>tileAllocMap := (tileAllocMap s)[j := 1], freePointer := j,
         usageMap := (usageMap s)(t \<mapsto> j)\<rparr>, Some (j div tileCountSqrt s, j mod tileCountSqrt s))"
    unfolding Bex_def by (elim exE)
  have e: "fst (imageCoordsFor s t) = fst (allocationFor s t)"
    by (simp add: imageCoordsFor_def split: prod.splits)
  show ?thesis unfolding e j[THEN conjunct2, THEN conjunct2] fst_conv
    using good_facts(6)[OF g] by simp
qed

lemma sliceWorld_nolost:
  assumes g: "good tsz ti tw s"
    and nla: "\<not> textureLost (fst (imageCoordsFor s (SliceUsage blockID dimName layer)))"
  shows "\<not> textureLost (fst (sliceWorld world op blockID tsz ti tw dimName layer T (s, arr)))"
proof -
  from alloc_step[OF g nla] obtain i where
    a: "good tsz ti tw (fst (imageCoordsFor s (SliceUsage blockID dimName layer)))"
      "usageMap (fst (imageCoordsFor s (SliceUsage blockID dimName layer)))
         (SliceUsage blockID dimName layer) = Some i" by metis
  show ?thesis
    unfolding sliceWorld_alloc[OF nla] sliceWorld_present[OF a]
    using nla by simp
qed

lemma sliceDim_keep:
  assumes "d \<noteq> dimName"
  shows "snd (sliceDim world op blockID tsz ti tw (s, fd) (dimName, T)) (Lo d) = fd (Lo d)"
    "snd (sliceDim world op blockID tsz ti tw (s, fd) (dimName, T)) (Hi d) = fd (Hi d)"
  using assms
  by (auto simp: sliceDim_def storeFaces_def Let_def split: prod.splits option.splits)


section \<open>An opaque block of tile size 3\<close>

lemma solid_flags:
  "layerFlags solidWorld [1, 0, 0, 0, 0, 1, 0, 0, 0, 0, 1, 0, 0, 0, 0, 1] 0 3 = (True, False)"
  "layerFlags solidWorld [1, 0, 0, 0, 0, 1, 0, 0, 0, 0, 1, 0, 0, 0, 0, 1] 2 3 = (False, True)"
proof -
  have u: "[0..<3::nat] = [0, 1, 2]" by code_simp
  show "layerFlags solidWorld [1, 0, 0, 0, 0, 1, 0, 0, 0, 0, 1, 0, 0, 0, 0, 1] 0 3 = (True, False)"
    "layerFlags solidWorld [1, 0, 0, 0, 0, 1, 0, 0, 0, 0, 1, 0, 0, 0, 0, 1] 2 3 = (False, True)"
    by (simp_all add: layerFlags_def layerFlag_def solidWorld_def multiplyVec3_def Let_def
        toUint8Clamp_def u)
qed

lemma good_start: "good 3 0 256 (acknowledge (Texgen 3))"
proof -
  have "reachable 3 (acknowledge (Texgen 3 :: usage texgen))" by (intro r_ack r_new)
  then have "atlas_inv (acknowledge (Texgen 3 :: usage texgen))" by (rule reachable_inv) simp
  then show ?thesis
    unfolding good_def
    by (simp add: acknowledge_def Texgen_def enlargeTexture_def Let_def createImageData_def)
qed

lemma solid_Z:
  obtains s2 tc1 tc2 where
    "sliceDim solidWorld True 1 3 0 256 (acknowledge (Texgen 3), Map.empty)
       (DimZ, [1, 0, 0, 0, 0, 1, 0, 0, 0, 0, 1, 0, 0, 0, 0, 1]) =
     (s2, [Lo DimZ \<mapsto> \<lparr>vertices = quadVertices False [1, 0, 0, 0, 0, 1, 0, 0, 0, 0, 1, 0, 0, 0, 0, 1] 0,
                          texcoords = tc1\<rparr>,
           Hi DimZ \<mapsto> \<lparr>vertices = quadVertices True [1, 0, 0, 0, 0, 1, 0, 0, 0, 0, 1, 0, 0, 0, 0, 1] 1,
                          texcoords = tc2\<rparr>])"
    "length tc1 = 12" "length tc2 = 12"
proof -
  let ?T = "[1, 0, 0, 0, 0, 1, 0, 0, 0, 0, 1, 0, 0, 0, 0, 1] :: mat4"
  let ?s0 = "acknowledge (Texgen 3) :: usage texgen"
  let ?init = "([], [], [], []) :: sliceArrays"
  note g0 = good_start
  have m0: "tileAllocMap ?s0 = replicate 2601 0"
    by (simp add: acknowledge_def Texgen_def enlargeTexture_def Let_def borderTileSize_def)
  have f0: "\<exists>i < length (tileAllocMap ?s0). tileAllocMap ?s0 ! i = 0"
    unfolding m0 by (intro exI[of _ 0]) simp
  obtain s1 arr1 where r1: "sliceWorld solidWorld True 1 3 0 256 DimZ 0 ?T (?s0, ?init) = (s1, arr1)"
    by (cases "sliceWorld solidWorld True 1 3 0 256 DimZ 0 ?T (?s0, ?init)") auto
  have nl1: "\<not> textureLost s1"
    using sliceWorld_nolost[OF g0 imageCoordsFor_nolost[OF g0 disjI2[OF f0]],
        where blockID = 1 and dimName = DimZ and layer = 0 and world = solidWorld and op = True
          and T = ?T and arr = ?init]
    unfolding r1 by simp
  from sliceWorld_form[OF g0 r1 nl1] obtain sa i where
    a: "good 3 0 256 sa" "tileAllocMap sa = (tileAllocMap ?s0)[i := 1]"
      "s1 = (if \<not> fst (layerFlags solidWorld ?T 0 3) \<and> \<not> snd (layerFlags solidWorld ?T 0 3)
           then deallocateUsage (writeTex sa 0 (sliceData solidWorld ?T 0 3 256 (tileCoord 3 256 i)))
                  (SliceUsage 1 DimZ 0)
           else writeTex sa 0 (\<lambda>d. completedData (tileCoord 3 256 i) 256 3
                                 (sliceData solidWorld ?T 0 3 256 (tileCoord 3 256 i) d)))"
      "arr1 = sliceGeom sa True 1 3 DimZ 0 ?T (layerFlags solidWorld ?T 0 3) ?init"
    by metis
  let ?w1 = "writeTex sa 0 (\<lambda>d. completedData (tileCoord 3 256 i) 256 3
                                 (sliceData solidWorld ?T 0 3 256 (tileCoord 3 256 i) d))"
  have s1: "s1 = ?w1" using a(3) unfolding solid_flags by simp
  have g1: "good 3 0 256 s1" unfolding s1 by (rule good_writeTex[OF a(1)]) simp
  have m1: "tileAllocMap s1 = (replicate 2601 0)[i := 1]" unfolding s1 using a(2) m0 by simp
  obtain tc1 where arr1: "arr1 = (tc1, [], quadVertices False ?T 0, [])" and l1: "length tc1 = 12"
  proof -
    have "arr1 = (snd (calcTexCoords sa (SliceUsage 1 DimZ 0) False), [], quadVertices False ?T 0, [])"
      unfolding a(4) solid_flags by (simp add: sliceGeom_def pushQuad_def split: prod.splits)
    with length_calcTexCoords[of sa "SliceUsage 1 DimZ 0" False] show thesis using that by blast
  qed
  have f1: "\<exists>j < length (tileAllocMap s1). tileAllocMap s1 ! j = 0"
    unfolding m1 by (intro exI[of _ "if i = 0 then 1 else 0"]) simp
  obtain s2 arr2 where r2: "sliceWorld solidWorld True 1 3 0 256 DimZ 2 ?T (s1, arr1) = (s2, arr2)"
    by (cases "sliceWorld solidWorld True 1 3 0 256 DimZ 2 ?T (s1, arr1)") auto
  have nl2: "\<not> textureLost s2"
    using sliceWorld_nolost[OF g1 imageCoordsFor_nolost[OF g1 disjI2[OF f1]],
        where blockID = 1 and dimName = DimZ and layer = 2 and world = solidWorld and op = True
          and T = ?T and arr = arr1]
    unfolding r2 by simp
  from sliceWorld_form[OF g1 r2 nl2] obtain sb where
    b: "arr2 = sliceGeom sb True 1 3 DimZ 2 ?T (layerFlags solidWorld ?T 2 3) arr1"
    by metis
  obtain tc2 where arr2: "arr2 = (tc1, tc2, quadVertices False ?T 0, quadVertices True ?T 1)"
    and l2: "length tc2 = 12"
  proof -
    have "arr2 = (tc1, snd (calcTexCoords sb (SliceUsage 1 DimZ 2) True), quadVertices False ?T 0,
                  quadVertices True ?T 1)"
      unfolding b solid_flags arr1 by (simp add: sliceGeom_def pushQuad_def split: prod.splits)
    with length_calcTexCoords[of sb "SliceUsage 1 DimZ 2" True] show thesis using that by blast
  qed
  have "sliceDim solidWorld True 1 3 0 256 (?s0, Map.empty) (DimZ, ?T) =
     (s2, [Lo DimZ \<mapsto> \<lparr>vertices = quadVertices False ?T 0, texcoords = tc1\<rparr>,
           Hi DimZ \<mapsto> \<lparr>vertices = quadVertices True ?T 1, texcoords = tc2\<rparr>])"
    using good_facts(6)[OF g0] r1 r2
    by (simp add: sliceDim_def Let_def arr2 storeFaces_def)
  then show thesis using l1 l2 by (rule that)
qed

lemma solid_faces:
  obtains tc1 tc2 where
    "snd (worldFaceData (acknowledge (Texgen 3)) 1 solidWorld True) (Lo DimZ) =
       Some \<lparr>vertices = quadVertices False [1, 0, 0, 0, 0, 1, 0, 0, 0, 0, 1, 0, 0, 0, 0, 1] 0,
             texcoords = tc1\<rparr>"
    "snd (worldFaceData (acknowledge (Texgen 3)) 1 solidWorld True) (Hi DimZ) =
       Some \<lparr>vertices = quadVertices True [1, 0, 0, 0, 0, 1, 0, 0, 0, 0, 1, 0, 0, 0, 0, 1] 1,
             texcoords = tc2\<rparr>"
    "length tc1 = 12" "length tc2 = 12"
proof -
  let ?T = "[1, 0, 0, 0, 0, 1, 0, 0, 0, 0, 1, 0, 0, 0, 0, 1] :: mat4"
  let ?TX = "[0, 1, 0, 0, 0, 0, 1, 0, 1, 0, 0, 0, 0, 0, 0, 1] :: mat4"
  let ?TY = "[0, 0, 1, 0, 1, 0, 0, 0, 0, 1, 0, 0, 0, 0, 0, 1] :: mat4"
  let ?s0 = "acknowledge (Texgen 3) :: usage texgen"
  from solid_Z obtain s2 tc1 tc2 where
    z: "sliceDim solidWorld True 1 3 0 256 (?s0, Map.empty) (DimZ, ?T) =
     (s2, [Lo DimZ \<mapsto> \<lparr>vertices = quadVertices False ?T 0, texcoords = tc1\<rparr>,
           Hi DimZ \<mapsto> \<lparr>vertices = quadVertices True ?T 1, texcoords = tc2\<rparr>])"
    and l: "length tc1 = 12" "length tc2 = 12" by metis
  let ?fdZ = "[Lo DimZ \<mapsto> \<lparr>vertices = quadVertices False ?T 0, texcoords = tc1\<rparr>,
           Hi DimZ \<mapsto> \<lparr>vertices = quadVertices True ?T 1, texcoords = tc2\<rparr>]"
  obtain s3 fd3 where x: "sliceDim solidWorld True 1 3 0 256 (s2, ?fdZ) (DimX, ?TX) = (s3, fd3)"
    by (cases "sliceDim solidWorld True 1 3 0 256 (s2, ?fdZ) (DimX, ?TX)") auto
  have k3: "fd3 (Lo DimZ) = ?fdZ (Lo DimZ)" "fd3 (Hi DimZ) = ?fdZ (Hi DimZ)"
    using sliceDim_keep[of DimZ DimX solidWorld True 1 3 0 256 s2 ?fdZ ?TX] unfolding x by simp_all
  obtain s4 fd4 where y: "sliceDim solidWorld True 1 3 0 256 (s3, fd3) (DimY, ?TY) = (s4, fd4)"
    by (cases "sliceDim solidWorld True 1 3 0 256 (s3, fd3) (DimY, ?TY)") auto
  have k4: "fd4 (Lo DimZ) = fd3 (Lo DimZ)" "fd4 (Hi DimZ) = fd3 (Hi DimZ)"
    using sliceDim_keep[of DimZ DimY solidWorld True 1 3 0 256 s3 fd3 ?TY] unfolding y by simp_all
  have f: "tileSize ?s0 = 3" "image ?s0 = 0" "width (imageHeap ?s0 0) = 256"
    by (simp_all add: acknowledge_def Texgen_def enlargeTexture_def Let_def createImageData_def)
  have "worldFaceData ?s0 1 solidWorld True = (s4, fd4)"
    using z x y by (simp add: worldFaceData_def Let_def TILE_MAPPINGS_def f)
  then have "snd (worldFaceData ?s0 1 solidWorld True) (Lo DimZ) =
       Some \<lparr>vertices = quadVertices False ?T 0, texcoords = tc1\<rparr>"
    "snd (worldFaceData ?s0 1 solidWorld True) (Hi DimZ) =
       Some \<lparr>vertices = quadVertices True ?T 1, texcoords = tc2\<rparr>"
    using k3 k4 by simp_all
  then show thesis using l by (rule that)
qed

text \<open>The theorem of C4 at an opaque block of tile size 3 cut from the solid world, in a
  new atlas: each face of dimension \<open>z\<close> holds exactly one quad, the low face the quad of
  layer 0 at depth 0 and the high face the quad of layer 2 at depth 1, with twelve texture
  coordinates each, and \<^verbatim>\<open>sliceWorld\<close> for the interior layer 1 leaves the four arrays
  as they were.\<close>

theorem opaque_outer_layers_witness:
  "(DimZ, [1, 0, 0, 0, 0, 1, 0, 0, 0, 0, 1, 0, 0, 0, 0, 1]) \<in> set TILE_MAPPINGS \<and>
   outerQuads (tileSize (acknowledge (Texgen 3 :: usage texgen))) DimZ
     [1, 0, 0, 0, 0, 1, 0, 0, 0, 0, 1, 0, 0, 0, 0, 1]
     (snd (worldFaceData (acknowledge (Texgen 3)) 1 solidWorld True)) \<and>
   map_option vertices (snd (worldFaceData (acknowledge (Texgen 3)) 1 solidWorld True) (Lo DimZ)) =
     Some (quadVertices False [1, 0, 0, 0, 0, 1, 0, 0, 0, 0, 1, 0, 0, 0, 0, 1] 0) \<and>
   map_option (\<lambda>g. length (texcoords g))
       (snd (worldFaceData (acknowledge (Texgen 3)) 1 solidWorld True) (Lo DimZ)) = Some 12 \<and>
   map_option vertices (snd (worldFaceData (acknowledge (Texgen 3)) 1 solidWorld True) (Hi DimZ)) =
     Some (quadVertices True [1, 0, 0, 0, 0, 1, 0, 0, 0, 0, 1, 0, 0, 0, 0, 1] 1) \<and>
   map_option (\<lambda>g. length (texcoords g))
       (snd (worldFaceData (acknowledge (Texgen 3)) 1 solidWorld True) (Hi DimZ)) = Some 12 \<and>
   quadVertices False [1, 0, 0, 0, 0, 1, 0, 0, 0, 0, 1, 0, 0, 0, 0, 1] 0 =
     [Some 0, Some 0, Some 0, Some 0, Some 1, Some 0, Some 1, Some 0, Some 0,
      Some 1, Some 1, Some 0, Some 1, Some 0, Some 0, Some 0, Some 1, Some 0] \<and>
   snd (rebuildWorld \<lparr>applyCubeSymmetry = (\<lambda>rot scale v. v), isReflection = (\<lambda>rot. False),
                       COUNT = 24\<rparr> (acknowledge (Texgen 3)) 1 solidWorld True) ! 5 =
     rotateFaceData \<lparr>applyCubeSymmetry = (\<lambda>rot scale v. v), isReflection = (\<lambda>rot. False),
                       COUNT = 24\<rparr> 5 (snd (worldFaceData (acknowledge (Texgen 3)) 1 solidWorld True)) \<and>
   (0 < (1::int) \<and> (1::int) < int 3 - 1) \<and>
   snd (sliceWorld solidWorld True 1 3 0 256 DimZ 1 [1, 0, 0, 0, 0, 1, 0, 0, 0, 0, 1, 0, 0, 0, 0, 1]
          (acknowledge (Texgen 3), [Some 0, Some 1], [], [Some 0, Some 0, Some 0], [])) =
     ([Some 0, Some 1], [], [Some 0, Some 0, Some 0], [])"
proof -
  let ?T = "[1, 0, 0, 0, 0, 1, 0, 0, 0, 0, 1, 0, 0, 0, 0, 1] :: mat4"
  let ?s0 = "acknowledge (Texgen 3) :: usage texgen"
  let ?symm = "\<lparr>applyCubeSymmetry = (\<lambda>rot scale v. v), isReflection = (\<lambda>rot. False), COUNT = 24\<rparr>"
  have m: "(DimZ, ?T) \<in> set TILE_MAPPINGS" by (simp add: TILE_MAPPINGS_def)
  from opaque_outer_layers[OF m, where s = ?s0 and blockID = 1 and world = solidWorld
      and symm = ?symm and layer = 1 and tsz = 3 and texImg = 0 and texWidth = 256 and s' = ?s0
      and arrays = "([Some 0, Some 1], [], [Some 0, Some 0, Some 0], [])"]
  have t: "outerQuads (tileSize ?s0) DimZ ?T (snd (worldFaceData ?s0 1 solidWorld True))"
    "snd (rebuildWorld ?symm ?s0 1 solidWorld True) ! 5 =
       rotateFaceData ?symm 5 (snd (worldFaceData ?s0 1 solidWorld True))"
    "snd (sliceWorld solidWorld True 1 3 0 256 DimZ 1 ?T
          (?s0, [Some 0, Some 1], [], [Some 0, Some 0, Some 0], [])) =
     ([Some 0, Some 1], [], [Some 0, Some 0, Some 0], [])"
    by simp_all
  from solid_faces obtain tc1 tc2 where
    f: "snd (worldFaceData ?s0 1 solidWorld True) (Lo DimZ) =
          Some \<lparr>vertices = quadVertices False ?T 0, texcoords = tc1\<rparr>"
       "snd (worldFaceData ?s0 1 solidWorld True) (Hi DimZ) =
          Some \<lparr>vertices = quadVertices True ?T 1, texcoords = tc2\<rparr>"
       "length tc1 = 12" "length tc2 = 12" by metis
  have q: "quadVertices False ?T 0 =
     [Some 0, Some 0, Some 0, Some 0, Some 1, Some 0, Some 1, Some 0, Some 0,
      Some 1, Some 1, Some 0, Some 1, Some 0, Some 0, Some 0, Some 1, Some 0]"
    by (simp add: quadVertices_def pushVertex_def multiplyVec3_def Let_def)
  have i: "0 < (1::int) \<and> (1::int) < int 3 - 1" by simp
  have v: "map_option vertices (snd (worldFaceData ?s0 1 solidWorld True) (Lo DimZ)) =
       Some (quadVertices False ?T 0)"
    "map_option (\<lambda>g. length (texcoords g)) (snd (worldFaceData ?s0 1 solidWorld True) (Lo DimZ)) = Some 12"
    "map_option vertices (snd (worldFaceData ?s0 1 solidWorld True) (Hi DimZ)) =
       Some (quadVertices True ?T 1)"
    "map_option (\<lambda>g. length (texcoords g)) (snd (worldFaceData ?s0 1 solidWorld True) (Hi DimZ)) = Some 12"
    using f by simp_all
  have i1: "0 < (1::int)" and i2: "(1::int) < int 3 - 1" by simp_all
  show ?thesis
    by (intro conjI) (rule m t(1) v q t(2) i1 i2 t(3))+
qed


section \<open>Synthesis of a block, twice\<close>


lemma TILE_MAPPINGS_map: "TILE_MAPPINGS = map (\<lambda>d. (d, tileMapping d)) [DimZ, DimX, DimY]"
  by (simp add: TILE_MAPPINGS_def tileMapping_def)

lemma layers_lost:
  "textureLost s \<Longrightarrow>
   textureLost (fst (foldl (\<lambda>acc layer. sliceWorld world op blockID tsz ti tw dimName layer T acc)
                       (s, arr) ls))"
proof (induction ls arbitrary: s arr)
  case Nil
  then show ?case by simp
next
  case (Cons l ls)
  obtain s1 a1 where r: "sliceWorld world op blockID tsz ti tw dimName l T (s, arr) = (s1, a1)"
    by (cases "sliceWorld world op blockID tsz ti tw dimName l T (s, arr)") auto
  have "textureLost s1" using sliceWorld_lost[OF Cons.prems, of world op blockID tsz ti tw dimName l T arr]
    unfolding r by simp
  from Cons.IH[OF this, of a1] show ?case by (simp add: r)
qed

lemma sliceLayers_flat:
  assumes "\<And>s a l. textureLost s \<Longrightarrow> textureLost (fst (slice l (s, a)))"
  shows "\<not> textureLost (fst (sliceLayers slice ls (s, arr))) \<Longrightarrow>
     sliceLayers slice ls (s, arr) =
       (case foldl (\<lambda>acc l. slice l acc) (s, arr) ls of (s', a') \<Rightarrow> (s', Some a'))"
proof (induction ls arbitrary: s arr)
  case Nil
  show ?case by simp
next
  case (Cons l ls)
  from Cons.prems have nl: "\<not> textureLost s" by (auto split: if_splits)
  obtain s1 a1 where r: "slice l (s, arr) = (s1, a1)" by (cases "slice l (s, arr)") auto
  from Cons.prems have "\<not> textureLost (fst (sliceLayers slice ls (s1, a1)))" by (simp add: nl r)
  from Cons.IH[OF this] show ?case by (simp add: nl r)
qed

lemma sliceDim_flat:
  assumes "\<not> textureLost (fst (sliceDim world op blockID tsz ti tw (s, fd) (dimName, T)))"
  shows "sliceDim world op blockID tsz ti tw (s, fd) (dimName, T) =
     (case foldl (\<lambda>acc layer. sliceWorld world op blockID tsz ti tw dimName layer T acc)
             (s, [], [], [], []) (layersOf op tsz) of
        (s', arr) \<Rightarrow> (s', storeFaces fd dimName arr))"
proof (cases op)
  case True
  with assms have nl: "\<not> textureLost s" by (auto simp: sliceDim_def Let_def split: if_splits)
  show ?thesis using True nl by (simp add: sliceDim_def Let_def layersOf_def)
next
  case False
  let ?slice = "\<lambda>layer. sliceWorld world op blockID tsz ti tw dimName layer T"
  have st: "\<And>s a l. textureLost s \<Longrightarrow> textureLost (fst (?slice l (s, a)))"
    by (rule sliceWorld_lost)
  obtain s1 r1 where e: "sliceLayers ?slice (map int [0..<tsz]) (s, [], [], [], []) = (s1, r1)"
    by (cases "sliceLayers ?slice (map int [0..<tsz]) (s, [], [], [], [])") auto
  have s1: "fst (sliceDim world op blockID tsz ti tw (s, fd) (dimName, T)) = s1"
    using False e by (simp add: sliceDim_def Let_def split: option.splits)
  with assms have "\<not> textureLost (fst (sliceLayers ?slice (map int [0..<tsz]) (s, [], [], [], [])))"
    by (simp add: e)
  from sliceLayers_flat[of ?slice, OF st this]
  show ?thesis using False
    by (simp add: sliceDim_def Let_def layersOf_def split: prod.splits)
qed

lemma sliceDim_lost:
  "textureLost s \<Longrightarrow> textureLost (fst (sliceDim world op blockID tsz ti tw (s, fd) m))"
proof -
  assume l: "textureLost s"
  obtain dimName T where m: "m = (dimName, T)" by (cases m) auto
  have "fst (sliceLayers slice ls (s, arr)) = s" for slice ls and arr :: sliceArrays
    using l by (cases ls) simp_all
  then have "fst (sliceDim world op blockID tsz ti tw (s, fd) (dimName, T)) = s"
    using l by (simp add: sliceDim_def Let_def split: prod.splits option.splits) (metis fst_conv)
  with l show ?thesis by (simp add: m)
qed

lemma slice_keep:
  assumes g: "good tsz ti tw s"
    and r: "sliceWorld world op blockID tsz ti tw dimName layer (tileMapping dimName) (s, arr) = (s', arr')"
    and nl: "\<not> textureLost s'"
    and ok: "sliceOK world blockID tsz ti tw s x"
  shows "sliceOK world blockID tsz ti tw s' x"
    and "usageMap s' (SliceUsage blockID (fst x) (snd x)) = usageMap s (SliceUsage blockID (fst x) (snd x))"
proof -
  note st = slice_step[OF g r nl]
  obtain d l where x: "x = (d, l)" by (cases x) auto
  let ?t = "SliceUsage blockID dimName layer" and ?t' = "SliceUsage blockID d l"
  have both: "sliceOK world blockID tsz ti tw s' x \<and> usageMap s' ?t' = usageMap s ?t'"
  proof (cases "(d, l) = (dimName, layer)")
    case True
    then have e: "x = (dimName, layer)" by (simp add: x)
    from st(7) ok have "sameTiles tsz ti tw s s'" unfolding e by simp
    then have "usageMap s' = usageMap s" by (simp add: sameTiles_def)
    with st(5) show ?thesis unfolding e using True by simp
  next
    case False
    then have ne: "?t' \<noteq> ?t" by auto
    with st(4) have u: "usageMap s' ?t' = usageMap s ?t'" by simp
    let ?F = "layerFlags world (tileMapping d) l tsz"
    show ?thesis
    proof (cases "fst ?F \<or> snd ?F")
      case False
      with ok u show ?thesis by (simp add: sliceOK_def x)
    next
      case True
      with ok obtain i where i: "usageMap s ?t' = Some i"
        "sliceStable world tsz tw d l i (data (imageHeap s ti))"
        by (auto simp: sliceOK_def x)
      have occ: "i < length (tileAllocMap s)" "tileAllocMap s ! i = 1"
        using good_present[OF g i(1)] good_facts(5)[OF g] by simp_all
      have nt: "usageMap s ?t \<noteq> Some i"
      proof
        assume "usageMap s ?t = Some i"
        from good_inj[OF g this i(1)] ne show False by simp
      qed
      have fr: "rd (data (imageHeap s' ti)) p = rd (data (imageHeap s ti)) p"
        if "p \<in> tileBytes tsz tw i" for p
        using st(6) occ nt that by blast
      have len: "length (data (imageHeap s' ti)) = length (data (imageHeap s ti))"
        using good_facts(10)[OF g] good_facts(10)[OF st(1)] by simp
      have "sliceStable world tsz tw d l i (data (imageHeap s' ti))"
        by (rule sliceStable_cong[OF i(2) len fr])
      with True u i(1) show ?thesis by (auto simp: sliceOK_def x)
    qed
  qed
  from both show "sliceOK world blockID tsz ti tw s' x" by blast
  from both show "usageMap s' (SliceUsage blockID (fst x) (snd x)) = usageMap s (SliceUsage blockID (fst x) (snd x))"
    by (simp add: x)
qed


lemma layers_run:
  assumes "foldl (\<lambda>acc layer. sliceWorld world op blockID tsz ti tw dimName layer (tileMapping dimName) acc)
             (s, arr) ls = (s', arr')"
    and "\<not> textureLost s'" and "good tsz ti tw s"
    and "\<forall>x \<in> D. sliceOK world blockID tsz ti tw s x"
  shows "good tsz ti tw s' \<and> uvFields s' = uvFields s \<and>
     (\<forall>x \<in> D. usageMap s' (SliceUsage blockID (fst x) (snd x)) =
                usageMap s (SliceUsage blockID (fst x) (snd x))) \<and>
     (\<forall>x \<in> D \<union> (\<lambda>l. (dimName, l)) ` set ls. sliceOK world blockID tsz ti tw s' x) \<and>
     arr' = foldl (\<lambda>a layer. sliceGeom s' op blockID tsz dimName layer (tileMapping dimName)
                              (layerFlags world (tileMapping dimName) layer tsz) a) arr ls"
  using assms
proof (induction ls arbitrary: s arr D)
  case Nil
  then show ?case by simp
next
  case (Cons l ls)
  let ?T = "tileMapping dimName"
  let ?step = "\<lambda>acc layer. sliceWorld world op blockID tsz ti tw dimName layer ?T acc"
  let ?t = "SliceUsage blockID dimName l"
  let ?F = "layerFlags world ?T l tsz"
  obtain s1 a1 where r1: "sliceWorld world op blockID tsz ti tw dimName l ?T (s, arr) = (s1, a1)"
    by (cases "sliceWorld world op blockID tsz ti tw dimName l ?T (s, arr)") auto
  from Cons.prems(1) have rest: "foldl ?step (s1, a1) ls = (s', arr')" by (simp add: r1)
  have nl1: "\<not> textureLost s1"
  proof
    assume "textureLost s1"
    from layers_lost[OF this, of world op blockID tsz ti tw dimName ?T a1 ls] rest Cons.prems(2)
    show False by simp
  qed
  note g = Cons.prems(3)
  note st = slice_step[OF g r1 nl1]
  have keep: "\<forall>x \<in> D. sliceOK world blockID tsz ti tw s1 x \<and>
      usageMap s1 (SliceUsage blockID (fst x) (snd x)) = usageMap s (SliceUsage blockID (fst x) (snd x))"
    using slice_keep[OF g r1 nl1] Cons.prems(4) by blast
  let ?D' = "insert (dimName, l) D"
  have ok1: "\<forall>x \<in> ?D'. sliceOK world blockID tsz ti tw s1 x" using keep st(5) by blast
  from Cons.IH[OF rest Cons.prems(2) st(1) ok1]
  have ih: "good tsz ti tw s'" "uvFields s' = uvFields s1"
    "\<forall>x \<in> ?D'. usageMap s' (SliceUsage blockID (fst x) (snd x)) =
                usageMap s1 (SliceUsage blockID (fst x) (snd x))"
    "\<forall>x \<in> ?D' \<union> (\<lambda>l. (dimName, l)) ` set ls. sliceOK world blockID tsz ti tw s' x"
    "arr' = foldl (\<lambda>a layer. sliceGeom s' op blockID tsz dimName layer ?T
                              (layerFlags world ?T layer tsz) a) a1 ls"
    by blast+
  have e: "usageMap s' ?t = usageMap s1 ?t" using ih(3) by simp
  have a1: "a1 = sliceGeom s' op blockID tsz dimName l ?T ?F arr"
  proof -
    have "sliceGeom s' op blockID tsz dimName l ?T ?F arr = sliceGeom s1 op blockID tsz dimName l ?T ?F arr"
    proof (rule sliceGeom_cong[OF nl1 Cons.prems(2)])
      show "tileCountSqrt s' = tileCountSqrt s1"
        using good_facts(1)[OF ih(1)] good_facts(1)[OF st(1)] by simp
      show "uvFields s' = uvFields s1" by (rule ih(2))
    next
      assume "fst ?F \<or> snd ?F"
      with st(5) obtain i where "usageMap s1 ?t = Some i" by (auto simp: sliceOK_def)
      with e show "\<exists>i. usageMap s1 ?t = Some i \<and> usageMap s' ?t = Some i" by simp
    qed
    with st(3) show ?thesis by simp
  qed
  have c1: "uvFields s' = uvFields s" using ih(2) st(2) by simp
  have c2: "\<forall>x \<in> D. usageMap s' (SliceUsage blockID (fst x) (snd x)) =
                usageMap s (SliceUsage blockID (fst x) (snd x))"
    using ih(3) keep by simp
  have c3: "\<forall>x \<in> D \<union> (\<lambda>l. (dimName, l)) ` set (l # ls). sliceOK world blockID tsz ti tw s' x"
    using ih(4) by simp
  have c4: "arr' = foldl (\<lambda>a layer. sliceGeom s' op blockID tsz dimName layer ?T
                              (layerFlags world ?T layer tsz) a) arr (l # ls)"
    using ih(5) a1 by simp
  from ih(1) c1 c2 c3 c4 show ?case by blast
qed

lemma dimGeom_cong:
  assumes "\<not> textureLost s" "\<not> textureLost s'" "tileCountSqrt s' = tileCountSqrt s"
    "uvFields s' = uvFields s"
    "\<forall>l \<in> set (layersOf op tsz). sliceOK world blockID tsz ti tw s (dimName, l) \<and>
        usageMap s' (SliceUsage blockID dimName l) = usageMap s (SliceUsage blockID dimName l)"
  shows "dimGeom world op blockID tsz s' dimName = dimGeom world op blockID tsz s dimName"
proof -
  have "foldl (\<lambda>arr layer. sliceGeom s' op blockID tsz dimName layer (tileMapping dimName)
                          (layerFlags world (tileMapping dimName) layer tsz) arr) a ls =
        foldl (\<lambda>arr layer. sliceGeom s op blockID tsz dimName layer (tileMapping dimName)
                          (layerFlags world (tileMapping dimName) layer tsz) arr) a ls"
    if "set ls \<subseteq> set (layersOf op tsz)" for a ls
    using that
  proof (induction ls arbitrary: a)
    case Nil
    show ?case by simp
  next
    case (Cons l ls)
    let ?F = "layerFlags world (tileMapping dimName) l tsz"
    from Cons.prems assms(5) have l: "sliceOK world blockID tsz ti tw s (dimName, l)"
      "usageMap s' (SliceUsage blockID dimName l) = usageMap s (SliceUsage blockID dimName l)"
      by auto
    have "sliceGeom s' op blockID tsz dimName l (tileMapping dimName) ?F a =
          sliceGeom s op blockID tsz dimName l (tileMapping dimName) ?F a"
    proof (rule sliceGeom_cong[OF assms(1,2) _ assms(3,4)])
      assume "fst ?F \<or> snd ?F"
      with l(1) obtain i where "usageMap s (SliceUsage blockID dimName l) = Some i"
        by (auto simp: sliceOK_def)
      with l(2) show "\<exists>i. usageMap s (SliceUsage blockID dimName l) = Some i \<and>
                          usageMap s' (SliceUsage blockID dimName l) = Some i" by simp
    qed
    moreover from Cons.prems have "set ls \<subseteq> set (layersOf op tsz)" by simp
    ultimately show ?case using Cons.IH by simp
  qed
  then show ?thesis unfolding dimGeom_def by simp
qed


lemma dims_lost:
  "textureLost s \<Longrightarrow>
   textureLost (fst (foldl (\<lambda>acc d. sliceDim world op blockID tsz ti tw acc (d, tileMapping d))
                       (s, fd) ds))"
proof (induction ds arbitrary: s fd)
  case Nil
  then show ?case by simp
next
  case (Cons d ds)
  obtain s1 fd1 where r: "sliceDim world op blockID tsz ti tw (s, fd) (d, tileMapping d) = (s1, fd1)"
    by (cases "sliceDim world op blockID tsz ti tw (s, fd) (d, tileMapping d)") auto
  have "textureLost s1"
    using sliceDim_lost[OF Cons.prems, of world op blockID tsz ti tw fd "(d, tileMapping d)"]
    unfolding r by simp
  from Cons.IH[OF this, of fd1] show ?case by (simp add: r)
qed

lemma dims_run:
  assumes "foldl (\<lambda>acc d. sliceDim world op blockID tsz ti tw acc (d, tileMapping d)) (s, fd) ds = (s', fd')"
    and "\<not> textureLost s'" and "good tsz ti tw s"
    and "\<forall>x \<in> D. sliceOK world blockID tsz ti tw s x"
  shows "good tsz ti tw s' \<and> uvFields s' = uvFields s \<and>
     (\<forall>x \<in> D. usageMap s' (SliceUsage blockID (fst x) (snd x)) =
                usageMap s (SliceUsage blockID (fst x) (snd x))) \<and>
     (\<forall>x \<in> D \<union> set ds \<times> set (layersOf op tsz). sliceOK world blockID tsz ti tw s' x) \<and>
     fd' = foldl (\<lambda>fd d. storeFaces fd d (dimGeom world op blockID tsz s' d)) fd ds"
  using assms
proof (induction ds arbitrary: s fd D)
  case Nil
  then show ?case by simp
next
  case (Cons d ds)
  let ?T = "tileMapping d"
  let ?L = "layersOf op tsz"
  obtain s1 fd1 where r1: "sliceDim world op blockID tsz ti tw (s, fd) (d, ?T) = (s1, fd1)"
    by (cases "sliceDim world op blockID tsz ti tw (s, fd) (d, ?T)") auto
  from Cons.prems(1) have rest:
    "foldl (\<lambda>acc d. sliceDim world op blockID tsz ti tw acc (d, tileMapping d)) (s1, fd1) ds = (s', fd')"
    by (simp add: r1)
  have nl1: "\<not> textureLost s1"
  proof
    assume "textureLost s1"
    from dims_lost[OF this, of world op blockID tsz ti tw fd1 ds] rest Cons.prems(2)
    show False by simp
  qed
  have "\<not> textureLost (fst (sliceDim world op blockID tsz ti tw (s, fd) (d, ?T)))"
    using nl1 by (simp add: r1)
  from sliceDim_flat[OF this] r1 obtain arr1 where
    f: "foldl (\<lambda>acc layer. sliceWorld world op blockID tsz ti tw d layer ?T acc)
             (s, [], [], [], []) ?L = (s1, arr1)"
    and fd1: "fd1 = storeFaces fd d arr1"
    by (auto split: prod.splits)
  from layers_run[OF f nl1 Cons.prems(3,4)]
  have lr: "good tsz ti tw s1" "uvFields s1 = uvFields s"
    "\<forall>x \<in> D. usageMap s1 (SliceUsage blockID (fst x) (snd x)) =
                usageMap s (SliceUsage blockID (fst x) (snd x))"
    "\<forall>x \<in> D \<union> (\<lambda>l. (d, l)) ` set ?L. sliceOK world blockID tsz ti tw s1 x"
    "arr1 = dimGeom world op blockID tsz s1 d"
    unfolding dimGeom_def by blast+
  let ?D' = "D \<union> (\<lambda>l. (d, l)) ` set ?L"
  from Cons.IH[OF rest Cons.prems(2) lr(1,4)]
  have ih: "good tsz ti tw s'" "uvFields s' = uvFields s1"
    "\<forall>x \<in> ?D'. usageMap s' (SliceUsage blockID (fst x) (snd x)) =
                usageMap s1 (SliceUsage blockID (fst x) (snd x))"
    "\<forall>x \<in> ?D' \<union> set ds \<times> set ?L. sliceOK world blockID tsz ti tw s' x"
    "fd' = foldl (\<lambda>fd d. storeFaces fd d (dimGeom world op blockID tsz s' d)) fd1 ds"
    by blast+
  have dg: "dimGeom world op blockID tsz s' d = dimGeom world op blockID tsz s1 d"
  proof (rule dimGeom_cong[OF nl1 Cons.prems(2)])
    show "tileCountSqrt s' = tileCountSqrt s1"
      using good_facts(1)[OF ih(1)] good_facts(1)[OF lr(1)] by simp
    show "uvFields s' = uvFields s1" by (rule ih(2))
    show "\<forall>l \<in> set ?L. sliceOK world blockID tsz ti tw s1 (d, l) \<and>
        usageMap s' (SliceUsage blockID d l) = usageMap s1 (SliceUsage blockID d l)"
    proof
      fix l assume l: "l \<in> set ?L"
      then have m: "(d, l) \<in> ?D'" by simp
      from lr(4) m have "sliceOK world blockID tsz ti tw s1 (d, l)" by blast
      moreover have "usageMap s' (SliceUsage blockID d l) = usageMap s1 (SliceUsage blockID d l)"
        using bspec[OF ih(3) m] by simp
      ultimately show "sliceOK world blockID tsz ti tw s1 (d, l) \<and>
        usageMap s' (SliceUsage blockID d l) = usageMap s1 (SliceUsage blockID d l)" by simp
    qed
  qed
  have c1: "uvFields s' = uvFields s" using ih(2) lr(2) by simp
  have c2: "\<forall>x \<in> D. usageMap s' (SliceUsage blockID (fst x) (snd x)) =
                usageMap s (SliceUsage blockID (fst x) (snd x))"
    using ih(3) lr(3) by simp
  have c3: "\<forall>x \<in> D \<union> set (d # ds) \<times> set ?L. sliceOK world blockID tsz ti tw s' x"
    using ih(4) by auto
  have c4: "fd' = foldl (\<lambda>fd d. storeFaces fd d (dimGeom world op blockID tsz s' d)) fd (d # ds)"
    using ih(5) fd1 lr(5) dg by simp
  from ih(1) c1 c2 c3 c4 show ?case by blast
qed


lemma sameTiles_refl: "sameTiles tsz ti tw s s"
  by (simp add: sameTiles_def)

lemma sameTiles_trans:
  assumes "sameTiles tsz ti tw s s1" "sameTiles tsz ti tw s1 s2"
  shows "sameTiles tsz ti tw s s2"
  using assms unfolding sameTiles_def by simp

lemma all_dims: "set [DimZ, DimX, DimY] = UNIV"
proof -
  have "d \<in> set [DimZ, DimX, DimY]" for d by (cases d) simp_all
  then show ?thesis by blast
qed

lemma world_run:
  assumes r: "worldFaceData s blockID world op = (s', fd')" and nl: "\<not> textureLost s'"
    and g: "good tsz ti tw s"
  shows "good tsz ti tw s'" "uvFields s' = uvFields s" "settled world op blockID tsz ti tw s'"
    "fd' = worldGeom world op blockID tsz s'"
proof -
  have f: "tileSize s = tsz" "image s = ti" "width (imageHeap s ti) = tw"
    using good_facts(7,8,9)[OF g] by simp_all
  have "foldl (\<lambda>acc d. sliceDim world op blockID tsz ti tw acc (d, tileMapping d)) (s, Map.empty)
          [DimZ, DimX, DimY] = (s', fd')"
    using r unfolding worldFaceData_def Let_def f TILE_MAPPINGS_map foldl_map .
  from dims_run[OF this nl g, of "{}"]
  have d: "good tsz ti tw s'" "uvFields s' = uvFields s"
    "\<forall>x \<in> set [DimZ, DimX, DimY] \<times> set (layersOf op tsz). sliceOK world blockID tsz ti tw s' x"
    "fd' = foldl (\<lambda>fd d. storeFaces fd d (dimGeom world op blockID tsz s' d)) Map.empty [DimZ, DimX, DimY]"
    by simp_all
  show "good tsz ti tw s'" "uvFields s' = uvFields s" by (rule d(1), rule d(2))
  show "settled world op blockID tsz ti tw s'"
    unfolding settled_def using d(3) unfolding all_dims by simp
  show "fd' = worldGeom world op blockID tsz s'" unfolding worldGeom_def by (rule d(4))
qed

lemma layers_same:
  assumes "foldl (\<lambda>acc layer. sliceWorld world op blockID tsz ti tw dimName layer (tileMapping dimName) acc)
             (s, arr) ls = (s', arr')"
    and "\<not> textureLost s'" and "good tsz ti tw s"
    and "\<forall>l \<in> set ls. sliceOK world blockID tsz ti tw s (dimName, l)"
  shows "sameTiles tsz ti tw s s'"
  using assms
proof (induction ls arbitrary: s arr)
  case Nil
  then show ?case by (simp add: sameTiles_refl)
next
  case (Cons l ls)
  let ?T = "tileMapping dimName"
  obtain s1 a1 where r1: "sliceWorld world op blockID tsz ti tw dimName l ?T (s, arr) = (s1, a1)"
    by (cases "sliceWorld world op blockID tsz ti tw dimName l ?T (s, arr)") auto
  from Cons.prems(1) have rest:
    "foldl (\<lambda>acc layer. sliceWorld world op blockID tsz ti tw dimName layer ?T acc) (s1, a1) ls = (s', arr')"
    by (simp add: r1)
  have nl1: "\<not> textureLost s1"
  proof
    assume "textureLost s1"
    from layers_lost[OF this, of world op blockID tsz ti tw dimName ?T a1 ls] rest Cons.prems(2)
    show False by simp
  qed
  note g = Cons.prems(3)
  note st = slice_step[OF g r1 nl1]
  from st(7) Cons.prems(4) have a: "sameTiles tsz ti tw s s1" by simp
  have "\<forall>l' \<in> set ls. sliceOK world blockID tsz ti tw s1 (dimName, l')"
    using slice_keep(1)[OF g r1 nl1] Cons.prems(4) by simp
  from Cons.IH[OF rest Cons.prems(2) st(1) this] have "sameTiles tsz ti tw s1 s'" .
  with a show ?case by (rule sameTiles_trans)
qed

lemma dims_same:
  assumes "foldl (\<lambda>acc d. sliceDim world op blockID tsz ti tw acc (d, tileMapping d)) (s, fd) ds = (s', fd')"
    and "\<not> textureLost s'" and "good tsz ti tw s"
    and "settled world op blockID tsz ti tw s"
  shows "sameTiles tsz ti tw s s'"
  using assms
proof (induction ds arbitrary: s fd)
  case Nil
  then show ?case by (simp add: sameTiles_refl)
next
  case (Cons d ds)
  let ?T = "tileMapping d"
  let ?L = "layersOf op tsz"
  obtain s1 fd1 where r1: "sliceDim world op blockID tsz ti tw (s, fd) (d, ?T) = (s1, fd1)"
    by (cases "sliceDim world op blockID tsz ti tw (s, fd) (d, ?T)") auto
  from Cons.prems(1) have rest:
    "foldl (\<lambda>acc d. sliceDim world op blockID tsz ti tw acc (d, tileMapping d)) (s1, fd1) ds = (s', fd')"
    by (simp add: r1)
  have nl1: "\<not> textureLost s1"
  proof
    assume "textureLost s1"
    from dims_lost[OF this, of world op blockID tsz ti tw fd1 ds] rest Cons.prems(2)
    show False by simp
  qed
  have "\<not> textureLost (fst (sliceDim world op blockID tsz ti tw (s, fd) (d, ?T)))"
    using nl1 by (simp add: r1)
  from sliceDim_flat[OF this] r1 obtain arr1 where
    f: "foldl (\<lambda>acc layer. sliceWorld world op blockID tsz ti tw d layer ?T acc)
             (s, [], [], [], []) ?L = (s1, arr1)"
    by (auto split: prod.splits)
  note g = Cons.prems(3)
  have okL: "\<forall>l \<in> set ?L. sliceOK world blockID tsz ti tw s (d, l)"
    using Cons.prems(4) by (simp add: settled_def)
  have a: "sameTiles tsz ti tw s s1" by (rule layers_same[OF f nl1 g okL])
  have okD: "\<forall>x \<in> UNIV \<times> set ?L. sliceOK world blockID tsz ti tw s x"
    using Cons.prems(4) by (auto simp: settled_def)
  from layers_run[OF f nl1 g okD]
  have g1: "good tsz ti tw s1"
    and ok1: "\<forall>x \<in> UNIV \<times> set ?L \<union> (\<lambda>l. (d, l)) ` set ?L. sliceOK world blockID tsz ti tw s1 x"
    by blast+
  have s1: "settled world op blockID tsz ti tw s1"
    unfolding settled_def using ok1 by blast
  from Cons.IH[OF rest Cons.prems(2) g1 s1] have "sameTiles tsz ti tw s1 s'" .
  with a show ?case by (rule sameTiles_trans)
qed

lemma worldGeom_cong:
  assumes "\<not> textureLost s" "\<not> textureLost s'" "tileCountSqrt s' = tileCountSqrt s"
    "sameTiles tsz ti tw s s'" "settled world op blockID tsz ti tw s"
  shows "worldGeom world op blockID tsz s' = worldGeom world op blockID tsz s"
proof -
  have u: "uvFields s' = uvFields s" "usageMap s' = usageMap s"
    using assms(4) by (simp_all add: sameTiles_def)
  have "dimGeom world op blockID tsz s' d = dimGeom world op blockID tsz s d" for d
    by (rule dimGeom_cong[OF assms(1,2,3) u(1), where ti = ti and tw = tw])
       (use assms(5) u(2) in \<open>simp add: settled_def\<close>)
  then show ?thesis unfolding worldGeom_def by simp
qed

lemma world_twice:
  assumes g: "good tsz ti tw s0"
    and r1: "worldFaceData s0 blockID world op = (s1, fd1)" and nl1: "\<not> textureLost s1"
    and r2: "worldFaceData s1 blockID world op = (s2, fd2)" and nl2: "\<not> textureLost s2"
  shows "good tsz ti tw s1" "good tsz ti tw s2" "sameTiles tsz ti tw s1 s2" "fd2 = fd1"
proof -
  note w1 = world_run[OF r1 nl1 g]
  note w2 = world_run[OF r2 nl2 w1(1)]
  show "good tsz ti tw s1" by (rule w1(1))
  show "good tsz ti tw s2" by (rule w2(1))
  have f: "tileSize s1 = tsz" "image s1 = ti" "width (imageHeap s1 ti) = tw"
    using good_facts(7,8,9)[OF w1(1)] by simp_all
  have "foldl (\<lambda>acc d. sliceDim world op blockID tsz ti tw acc (d, tileMapping d)) (s1, Map.empty)
          [DimZ, DimX, DimY] = (s2, fd2)"
    using r2 unfolding worldFaceData_def Let_def f TILE_MAPPINGS_map foldl_map .
  from dims_same[OF this nl2 w1(1,3)] show st: "sameTiles tsz ti tw s1 s2" .
  have "tileCountSqrt s2 = tileCountSqrt s1"
    using good_facts(1)[OF w1(1)] good_facts(1)[OF w2(1)] by simp
  from worldGeom_cong[OF nl1 nl2 this st w1(3)] w1(4) w2(4) show "fd2 = fd1" by simp
qed


lemma length_colorData [simp]: "length (colorData rgba tsz tw coord d) = length d"
  by (simp add: colorData_def)

lemma colorData_frame:
  "p \<notin> tileBytes tsz tw i \<Longrightarrow> rd (colorData rgba tsz tw (tileCoord tsz tw i) d) p = rd d p"
  unfolding colorData_def tileBytes_def tileCoord_def cellBytes_def by (rule colorData_other)

lemma colorData_indep:
  "p \<in> tileBytes tsz tw i \<Longrightarrow> length d = length d' \<Longrightarrow>
   rd (colorData rgba tsz tw (tileCoord tsz tw i) d) p =
   rd (colorData rgba tsz tw (tileCoord tsz tw i) d') p"
  unfolding colorData_def tileBytes_def tileCoord_def cellBytes_def by (rule colorData_same)

lemma colorPixel_data:
  "colorPixel ti tw (Some coord) rgba s uv = writeTex s ti (\<lambda>d. colorPixelData tw coord rgba d uv)"
proof -
  obtain pixu pixv where c: "coord = (pixu, pixv)" by (cases coord) auto
  obtain u v where uv: "uv = (u, v)" by (cases uv) auto
  obtain r g b a where rgba: "rgba = (r, g, b, a)" by (cases rgba) auto
  show ?thesis
    by (simp add: colorPixel_def colorPixelData_def pixelIndex_def c uv rgba Let_def)
qed

lemma foldl_colorPixel_data:
  "foldl (colorPixel ti tw (Some coord) rgba) s uvs =
   writeTex s ti (\<lambda>d. foldl (colorPixelData tw coord rgba) d uvs)"
proof (induction uvs arbitrary: s)
  case Nil
  show ?case by (simp add: writeTex_def)
next
  case (Cons uv uvs)
  have "foldl (colorPixel ti tw (Some coord) rgba) s (uv # uvs) =
        foldl (colorPixel ti tw (Some coord) rgba) (colorPixel ti tw (Some coord) rgba s uv) uvs"
    by simp
  also have "\<dots> = writeTex (colorPixel ti tw (Some coord) rgba s uv) ti
                     (\<lambda>d. foldl (colorPixelData tw coord rgba) d uvs)"
    by (rule Cons.IH)
  also have "\<dots> = writeTex s ti (\<lambda>d. foldl (colorPixelData tw coord rgba) d (uv # uvs))"
    unfolding colorPixel_data writeTex_writeTex by simp
  finally show ?case .
qed

lemma colorFace_cong:
  assumes "\<not> textureLost s" "\<not> textureLost s'" "usageMap s t = Some i" "usageMap s' t = Some i"
    "tileCountSqrt s' = tileCountSqrt s" "uvFields s' = uvFields s"
  shows "snd (foldl (colorFace t) (s', fd) ms) = snd (foldl (colorFace t) (s, fd) ms)"
proof (induction ms arbitrary: fd)
  case Nil
  show ?case by simp
next
  case (Cons m ms)
  obtain d T where m: "m = (d, T)" by (cases m) auto
  have p: "pushQuad x v tc f T dp t = (x, snd (pushQuad s v tc f T dp t))"
    if "\<not> textureLost x" "usageMap x t = Some i" "tileCountSqrt x = tileCountSqrt s"
       "uvFields x = uvFields s" for x v tc f dp
  proof -
    have "fst (pushQuad x v tc f T dp t) = x" by (rule pushQuad_present[OF that(1,2)])
    moreover have "snd (pushQuad x v tc f T dp t) = snd (pushQuad s v tc f T dp t)"
      by (rule pushQuad_cong[OF assms(1) that(1) assms(3) that(2,3,4)])
    ultimately show ?thesis by (metis prod.collapse)
  qed
  define G where "G = (case snd (pushQuad s [] [] False T 0 t) of (vL, tL) \<Rightarrow>
      case snd (pushQuad s [] [] True T 1 t) of (vH, unused) \<Rightarrow>
        fd(Lo d \<mapsto> \<lparr>vertices = vL, texcoords = tL\<rparr>, Hi d \<mapsto> \<lparr>vertices = vH, texcoords = tL\<rparr>))"
  have c: "colorFace t (x, fd) m = (x, G)"
    if "\<not> textureLost x" "usageMap x t = Some i" "tileCountSqrt x = tileCountSqrt s"
       "uvFields x = uvFields s" for x
    unfolding colorFace_def m prod.case p[OF that] G_def by (simp split: prod.splits)
  have 1: "colorFace t (s, fd) m = (s, G)" by (rule c[OF assms(1,3)]) simp_all
  have 2: "colorFace t (s', fd) m = (s', G)" by (rule c[OF assms(2,4,5,6)])
  show ?case by (simp add: 1 2 Cons.IH)
qed

lemma foldl_colorFace_lost:
  "textureLost s \<Longrightarrow> fst (foldl (colorFace t) (s, fd) ms) = s"
proof (induction ms arbitrary: fd)
  case Nil
  show ?case by simp
next
  case (Cons m ms)
  obtain d T where m: "m = (d, T)" by (cases m) auto
  obtain vL tL where p1: "pushQuad s [] [] False T 0 t = (s, vL, tL)"
    using pushQuad_lost[OF Cons.prems, of "[]" "[]" False T 0 t]
    by (cases "pushQuad s [] [] False T 0 t") auto
  obtain vH tH where p2: "pushQuad s [] [] True T 1 t = (s, vH, tH)"
    using pushQuad_lost[OF Cons.prems, of "[]" "[]" True T 1 t]
    by (cases "pushQuad s [] [] True T 1 t") auto
  have "colorFace t (s, fd) m = (s, fd(Lo d \<mapsto> \<lparr>vertices = vL, texcoords = tL\<rparr>,
                         Hi d \<mapsto> \<lparr>vertices = vH, texcoords = tL\<rparr>))"
    by (simp add: colorFace_def m p1 p2)
  with Cons.IH[OF Cons.prems] show ?case by simp
qed


lemma colorPixel_lost: "textureLost (colorPixel ti tw coord rgba s uv) = textureLost s"
  by (auto simp: colorPixel_def Let_def split: option.splits prod.splits)

lemma foldl_colorPixel_lost:
  "textureLost (foldl (colorPixel ti tw coord rgba) s uvs) = textureLost s"
  by (induction uvs arbitrary: s) (simp_all add: colorPixel_lost)

lemma colorFaceData_lost:
  assumes "textureLost (fst (imageCoordsFor s (ColorUsage blockID)))"
  shows "textureLost (fst (colorFaceData s blockID color))"
proof -
  obtain s1 coord where ic: "imageCoordsFor s (ColorUsage blockID) = (s1, coord)"
    by (cases "imageCoordsFor s (ColorUsage blockID)") auto
  with assms have l1: "textureLost s1" by simp
  obtain c0 c1 c2 c3 where color: "color = (c0, c1, c2, c3)" by (cases color) auto
  let ?s2 = "foldl (colorPixel (image s) (width (imageHeap s (image s))) coord
                      (255 * c0, 255 * c1, 255 * c2, 255 * c3)) s1
               (List.product [0..<tileSize s] [0..<tileSize s])"
  have l2: "textureLost ?s2" using l1 by (simp add: foldl_colorPixel_lost)
  have l3: "textureLost (completed ?s2 (ColorUsage blockID))" by (rule completed_lost[OF l2])
  show ?thesis
    unfolding colorFaceData_def Let_def ic prod.case color
    using foldl_colorFace_lost[OF l3] l3 by simp
qed

lemma colorFaceData_present:
  assumes g: "good tsz ti tw s" and u: "usageMap s (ColorUsage blockID) = Some i"
  shows "colorFaceData s blockID color =
     (writeTex s ti (\<lambda>d. completedData (tileCoord tsz tw i) tw tsz
                            (colorData (scaledColor color) tsz tw (tileCoord tsz tw i) d)),
      snd (foldl (colorFace (ColorUsage blockID)) (s, Map.empty) TILE_MAPPINGS))"
proof -
  let ?t = "ColorUsage blockID"
  let ?c = "tileCoord tsz tw i"
  obtain c0 c1 c2 c3 where color: "color = (c0, c1, c2, c3)" by (cases color) auto
  have f: "tileSize s = tsz" "image s = ti" "width (imageHeap s ti) = tw"
    using good_facts(7,8,9)[OF g] by simp_all
  have nl: "\<not> textureLost s" by (rule good_facts(6)[OF g])
  have ic: "imageCoordsFor s ?t = (s, Some ?c)"
    unfolding imageCoordsFor_present'[OF nl u] tileOrigin_good[OF g] ..
  let ?s3 = "writeTex s ti (\<lambda>d. completedData ?c tw tsz (colorData (scaledColor color) tsz tw ?c d))"
  have px: "foldl (colorPixel ti tw (Some ?c) (255 * c0, 255 * c1, 255 * c2, 255 * c3)) s
              (List.product [0..<tsz] [0..<tsz]) =
            writeTex s ti (colorData (scaledColor color) tsz tw ?c)"
    unfolding foldl_colorPixel_data colorData_def scaledColor_def color by simp
  have cp: "completed (writeTex s ti (colorData (scaledColor color) tsz tw ?c)) ?t = ?s3"
    by (rule completed_good[OF g u])
  have p3: "\<not> textureLost ?s3" "usageMap ?s3 ?t = Some i" using nl u by simp_all
  have 1: "fst (foldl (colorFace ?t) (?s3, Map.empty) TILE_MAPPINGS) = ?s3"
    by (rule foldl_colorFace_present[OF p3])
  have 2: "snd (foldl (colorFace ?t) (?s3, Map.empty) TILE_MAPPINGS) =
           snd (foldl (colorFace ?t) (s, Map.empty) TILE_MAPPINGS)"
    by (rule colorFace_cong[OF nl p3(1) u p3(2)]) simp_all
  have "colorFaceData s blockID color = foldl (colorFace ?t) (?s3, Map.empty) TILE_MAPPINGS"
    unfolding colorFaceData_def Let_def f ic prod.case color px[unfolded color] cp[unfolded color] ..
  then show ?thesis using 1 2 by (metis prod.collapse)
qed

lemma colorFaceData_alloc:
  assumes g: "good tsz ti tw s"
    and nla: "\<not> textureLost (fst (imageCoordsFor s (ColorUsage blockID)))"
  shows "colorFaceData s blockID color =
         colorFaceData (fst (imageCoordsFor s (ColorUsage blockID))) blockID color"
proof -
  from alloc_step[OF g nla] have ga: "good tsz ti tw (fst (imageCoordsFor s (ColorUsage blockID)))"
    by metis
  have f: "tileSize s = tsz" "image s = ti" "width (imageHeap s ti) = tw"
    using good_facts(7,8,9)[OF g] by simp_all
  have fa: "tileSize (fst (imageCoordsFor s (ColorUsage blockID))) = tsz"
    "image (fst (imageCoordsFor s (ColorUsage blockID))) = ti"
    "width (imageHeap (fst (imageCoordsFor s (ColorUsage blockID))) ti) = tw"
    using good_facts(7,8,9)[OF ga] by simp_all
  show ?thesis
    unfolding colorFaceData_def Let_def f fa imageCoordsFor_idem[OF nla] ..
qed

lemma color_twice:
  assumes g: "good tsz ti tw s0"
    and r1: "colorFaceData s0 blockID color = (s1, fd1)" and nl1: "\<not> textureLost s1"
    and r2: "colorFaceData s1 blockID color = (s2, fd2)" and nl2: "\<not> textureLost s2"
  shows "good tsz ti tw s1" "good tsz ti tw s2" "sameTiles tsz ti tw s1 s2" "fd2 = fd1"
proof -
  let ?t = "ColorUsage blockID"
  let ?sa = "fst (imageCoordsFor s0 ?t)"
  let ?n = "tw div (tsz + 2)"
  have nla: "\<not> textureLost ?sa"
  proof
    assume "textureLost ?sa"
    from colorFaceData_lost[OF this, of color] r1 nl1 show False by simp
  qed
  from alloc_step[OF g nla] obtain i where
    a: "good tsz ti tw ?sa" "usageMap ?sa ?t = Some i" by metis
  let ?c = "tileCoord tsz tw i"
  let ?f = "\<lambda>d. completedData ?c tw tsz (colorData (scaledColor color) tsz tw ?c d)"
  have e1: "s1 = writeTex ?sa ti ?f"
    and f1: "fd1 = snd (foldl (colorFace ?t) (?sa, Map.empty) TILE_MAPPINGS)"
    using r1 unfolding colorFaceData_alloc[OF g nla] colorFaceData_present[OF a] by simp_all
  show g1: "good tsz ti tw s1" unfolding e1 by (rule good_writeTex[OF a(1)]) simp
  have u1: "usageMap s1 ?t = Some i" unfolding e1 using a(2) by simp
  have e2: "s2 = writeTex s1 ti ?f"
    and f2: "fd2 = snd (foldl (colorFace ?t) (s1, Map.empty) TILE_MAPPINGS)"
    using r2 unfolding colorFaceData_present[OF g1 u1] by simp_all
  show g2: "good tsz ti tw s2" unfolding e2 by (rule good_writeTex[OF g1]) simp
  have "snd (foldl (colorFace ?t) (s1, Map.empty) TILE_MAPPINGS) =
        snd (foldl (colorFace ?t) (?sa, Map.empty) TILE_MAPPINGS)"
    by (rule colorFace_cong[OF good_facts(6)[OF a(1)] nl1 a(2) u1]) (simp_all add: e1)
  then show "fd2 = fd1" unfolding f1 f2 .
  have i: "i < ?n * ?n" by (rule good_present(1)[OF a(1,2)])
  have len: "length (tileAllocMap s1) = ?n * ?n" by (rule good_facts(5)[OF g1])
  have d1: "data (imageHeap s1 ti) = ?f (data (imageHeap ?sa ti))" unfolding e1 by simp
  have d2: "data (imageHeap s2 ti) = ?f (data (imageHeap s1 ti))" unfolding e2 by simp
  have b: "rd (data (imageHeap s2 ti)) p = rd (data (imageHeap s1 ti)) p"
    if "j < length (tileAllocMap s1)" "p \<in> tileBytes tsz tw j" for j p
  proof (cases "j = i")
    case True
    with that(2) have p: "p \<in> tileBytes tsz tw i" by simp
    have r: "p \<notin> ringBytes ?c tw tsz" by (rule tileBytes_ring[OF i i p])
    have "rd (data (imageHeap s2 ti)) p =
          rd (colorData (scaledColor color) tsz tw ?c (data (imageHeap s1 ti))) p"
      unfolding d2 by (rule completedData_frame[OF r])
    also have "\<dots> = rd (colorData (scaledColor color) tsz tw ?c (data (imageHeap ?sa ti))) p"
      by (rule colorData_indep[OF p]) (simp add: d1)
    also have "\<dots> = rd (data (imageHeap s1 ti)) p"
      unfolding d1 by (rule completedData_frame[OF r, symmetric])
    finally show ?thesis .
  next
    case False
    from that(1) len have j: "j < ?n * ?n" by simp
    have 1: "p \<notin> tileBytes tsz tw i" using tileBytes_disjoint[OF j i that(2)] False by blast
    have 2: "p \<notin> ringBytes ?c tw tsz" by (rule tileBytes_ring[OF j i that(2)])
    show ?thesis unfolding d2 by (simp add: completedData_frame[OF 2] colorData_frame[OF 1])
  qed
  show "sameTiles tsz ti tw s1 s2"
    unfolding sameTiles_def using b by (simp add: e2)
qed


lemma worldFaceData_lost:
  "textureLost s \<Longrightarrow> textureLost (fst (worldFaceData s blockID world op))"
  unfolding worldFaceData_def Let_def TILE_MAPPINGS_map foldl_map by (rule dims_lost)

lemma rebuildOne_lost:
  assumes "textureLost s"
  shows "textureLost (fst (rebuildOne symm s bt blockID))"
proof (cases bt)
  case (Color color)
  have "textureLost (fst (imageCoordsFor s (ColorUsage blockID)))"
    using assms by (simp add: imageCoordsFor_lost)
  from colorFaceData_lost[OF this, of color] show ?thesis
    by (auto simp: Color rebuildColor_def split: prod.splits)
next
  case (World world op avg)
  from worldFaceData_lost[OF assms, of blockID world op] show ?thesis
    by (auto simp: World rebuildWorld_def split: prod.splits)
qed

lemma reachable_good:
  assumes "tsz + 2 \<le> 256" "reachable tsz s" "\<not> textureLost s"
  shows "good tsz (image s) (textureSize s) s"
proof -
  from reachable_inv[OF assms(2,1)] have inv: "atlas_inv s" .
  from reachable_sized[OF assms(2)] have "sized tsz s" .
  then have "tileSize s = tsz" "width (imageHeap s (image s)) = textureSize s"
    "length (data (imageHeap s (image s))) = 4 * textureSize s * textureSize s"
    unfolding sized_def by blast+
  with inv assms(3) show ?thesis by (simp add: good_def)
qed

lemma rebuildOne_twice:
  assumes g: "good tsz ti tw s0"
    and r1: "rebuildOne symm s0 bt blockID = (s1, g1)" and nl1: "\<not> textureLost s1"
    and r2: "rebuildOne symm s1 bt blockID = (s2, g2)" and nl2: "\<not> textureLost s2"
  shows "good tsz ti tw s1" "good tsz ti tw s2" "sameTiles tsz ti tw s1 s2" "g2 = g1"
proof -
  have "good tsz ti tw s1 \<and> good tsz ti tw s2 \<and> sameTiles tsz ti tw s1 s2 \<and> g2 = g1"
  proof (cases bt)
    case (Color color)
    obtain fd1 where c1: "colorFaceData s0 blockID color = (s1, fd1)" and e1: "g1 = replicate (COUNT symm) fd1"
      using r1 by (auto simp: Color rebuildColor_def split: prod.splits)
    obtain fd2 where c2: "colorFaceData s1 blockID color = (s2, fd2)" and e2: "g2 = replicate (COUNT symm) fd2"
      using r2 by (auto simp: Color rebuildColor_def split: prod.splits)
    from color_twice[OF g c1 nl1 c2 nl2] e1 e2 show ?thesis by simp
  next
    case (World world op avg)
    obtain fd1 where c1: "worldFaceData s0 blockID world op = (s1, fd1)"
      and e1: "g1 = map (\<lambda>rot. rotateFaceData symm rot fd1) [0..<COUNT symm]"
      using r1 by (auto simp: World rebuildWorld_def split: prod.splits)
    obtain fd2 where c2: "worldFaceData s1 blockID world op = (s2, fd2)"
      and e2: "g2 = map (\<lambda>rot. rotateFaceData symm rot fd2) [0..<COUNT symm]"
      using r2 by (auto simp: World rebuildWorld_def split: prod.splits)
    from world_twice[OF g c1 nl1 c2 nl2] e1 e2 show ?thesis by simp
  qed
  then show "good tsz ti tw s1" "good tsz ti tw s2" "sameTiles tsz ti tw s1 s2" "g2 = g1"
    by blast+
qed

text \<open>
  Two runs in a row in an atlas in whose texture a bordered tile fits (\<open>tsz + 2 \<le> 256\<close>):
  the second run leaves the usage map, the bitmap, the image and the face geometry of the
  first, and every byte of the interior of the tile of every token of the usage map.
\<close>

lemma rebuildOne_twice_sized:
  assumes "tsz + 2 \<le> 256" and "reachable tsz s0"
    and "rebuildOne symm s0 bt blockID = (s1, g1)" and "\<not> textureLost s1"
    and "rebuildOne symm s1 bt blockID = (s2, g2)" and "\<not> textureLost s2"
  shows "usageMap s2 = usageMap s1 \<and> tileAllocMap s2 = tileAllocMap s1 \<and>
         image s2 = image s1 \<and> textureSize s2 = textureSize s1 \<and> g2 = g1 \<and>
         (\<forall>k i p. usageMap s1 k = Some i \<and> p \<in> tileBytes tsz (textureSize s1) i \<longrightarrow>
            rd (data (imageHeap s2 (image s2))) p = rd (data (imageHeap s1 (image s1))) p)"
proof -
  have nl0: "\<not> textureLost s0"
  proof
    assume "textureLost s0"
    from rebuildOne_lost[OF this, of symm bt blockID] assms(3,4) show False by simp
  qed
  let ?ti = "image s0" and ?tw = "textureSize s0"
  have g0: "good tsz ?ti ?tw s0" by (rule reachable_good[OF assms(1,2) nl0])
  note t = rebuildOne_twice[OF g0 assms(3,4,5,6)]
  have f1: "image s1 = ?ti" "textureSize s1 = ?tw" using good_facts(8,12)[OF t(1)] by simp_all
  have f2: "image s2 = ?ti" "textureSize s2 = ?tw" using good_facts(8,12)[OF t(2)] by simp_all
  from t(3) have st: "usageMap s2 = usageMap s1" "tileAllocMap s2 = tileAllocMap s1"
    "\<forall>i < length (tileAllocMap s1). tileAllocMap s1 ! i = 1 \<longrightarrow>
        (\<forall>p \<in> tileBytes tsz ?tw i. rd (data (imageHeap s2 ?ti)) p = rd (data (imageHeap s1 ?ti)) p)"
    unfolding sameTiles_def by blast+
  have b: "rd (data (imageHeap s2 (image s2))) p = rd (data (imageHeap s1 (image s1))) p"
    if "usageMap s1 k = Some i" "p \<in> tileBytes tsz (textureSize s1) i" for k i p
  proof -
    have "i < length (tileAllocMap s1)" "tileAllocMap s1 ! i = 1"
      using good_present[OF t(1) that(1)] good_facts(5)[OF t(1)] by simp_all
    with st(3) that(2) show ?thesis unfolding f1 f2 by blast
  qed
  from st(1,2) f1 f2 t(4) b show ?thesis by (simp del: rebuildOne.simps) blast
qed


section \<open>Two runs in an atlas with an empty bitmap\<close>

text \<open>
  When no bordered tile fits into the texture (\<open>256 < tileSize + 2\<close>), the bitmap has no
  cell and \<^verbatim>\<open>imageCoordsFor\<close> returns no region: a slice stores no pixel and pushes no quad,
  and only releases its token.
\<close>

lemma dropTokens_empty [simp]: "dropTokens s {} = s"
  by (simp add: dropTokens_def)

lemma dropTokens_twice [simp]: "dropTokens (dropTokens s A) B = dropTokens s (A \<union> B)"
  by (auto simp: dropTokens_def fun_eq_iff)

lemma dropTokens_fields [simp]:
  "textureLost (dropTokens s S) = textureLost s" "tileAllocMap (dropTokens s S) = tileAllocMap s"
  "image (dropTokens s S) = image s" "textureSize (dropTokens s S) = textureSize s"
  "imageHeap (dropTokens s S) = imageHeap s" "tileSize (dropTokens s S) = tileSize s"
  "tileCountSqrt (dropTokens s S) = tileCountSqrt s"
  by (simp_all add: dropTokens_def)

lemma flat_dropTokens [simp]: "flat (dropTokens s S) = flat s"
  by (simp add: flat_def dropTokens_def)

lemma imageCoordsFor_flat:
  assumes "flat s"
  shows "imageCoordsFor s t =
     (case usageMap s t of
        Some i \<Rightarrow> (s, None)
      | None \<Rightarrow> (s\<lparr>usageMap := (usageMap s)(t \<mapsto> freePointer s)\<rparr>, None))"
  using assms
  by (simp add: flat_def imageCoordsFor_def allocationFor_def tileAlloc_def tileAlloc_loop_empty
      tileCoords_def Let_def split: option.splits)

lemma slicePixels_None:
  "slicePixels world T layer tsz ti tw None s = (s, False, False)"
proof -
  have "foldl (slicePixel world T layer ti tw None) acc uvs = acc" for acc uvs
    by (induction uvs) (simp_all add: slicePixel_def)
  then show ?thesis by (simp add: slicePixels_def)
qed

lemma sliceWorld_flat:
  assumes "flat s"
  shows "sliceWorld world op blockID tsz ti tw dimName layer T (s, arr) =
         (dropTokens s {SliceUsage blockID dimName layer}, arr)"
proof -
  obtain tL tH vL vH where arr: "arr = (tL, tH, vL, vH)" by (cases arr) auto
  let ?t = "SliceUsage blockID dimName layer"
  from assms have f: "\<not> textureLost s" "tileAllocMap s = []" by (simp_all add: flat_def)
  show ?thesis
  proof (cases "usageMap s ?t")
    case None
    have "deallocateUsage (s\<lparr>usageMap := (usageMap s)(?t \<mapsto> freePointer s)\<rparr>) ?t = dropTokens s {?t}"
      using f None by (cases s) (auto simp: deallocateUsage_def tileFree_def dropTokens_def fun_eq_iff)
    then show ?thesis
      unfolding sliceWorld_def arr prod.case Let_def imageCoordsFor_flat[OF assms] None option.case
        slicePixels_None
      by simp
  next
    case (Some i)
    have "deallocateUsage s ?t = dropTokens s {?t}"
      using f Some by (cases s) (auto simp: deallocateUsage_def tileFree_def dropTokens_def fun_eq_iff)
    then show ?thesis
      unfolding sliceWorld_def arr prod.case Let_def imageCoordsFor_flat[OF assms] Some option.case
        slicePixels_None
      by simp
  qed
qed

lemma layers_flat:
  assumes "flat s"
  shows "foldl (\<lambda>acc layer. sliceWorld world op blockID tsz ti tw dimName layer T acc) (s, arr) ls =
         (dropTokens s (SliceUsage blockID dimName ` set ls), arr)"
  using assms
proof (induction ls arbitrary: s)
  case Nil
  show ?case by simp
next
  case (Cons l ls)
  have fl: "flat (dropTokens s {SliceUsage blockID dimName l})" using Cons.prems by simp
  show ?case
    by (simp add: sliceWorld_flat[OF Cons.prems] Cons.IH[OF fl] Un_commute)
qed

lemma sliceDim_flat_atlas:
  assumes "flat s"
  shows "sliceDim world op blockID tsz ti tw (s, fd) (dimName, T) =
         (dropTokens s (SliceUsage blockID dimName ` set (layersOf op tsz)),
          storeFaces fd dimName ([], [], [], []))"
proof -
  let ?r = "sliceDim world op blockID tsz ti tw (s, fd) (dimName, T)"
  let ?f = "foldl (\<lambda>acc layer. sliceWorld world op blockID tsz ti tw dimName layer T acc)
              (s, [], [], [], []) (layersOf op tsz)"
  have e: "?f = (dropTokens s (SliceUsage blockID dimName ` set (layersOf op tsz)), [], [], [], [])"
    by (rule layers_flat[OF assms])
  have nl: "\<not> textureLost s" using assms by (simp add: flat_def)
  have "\<not> textureLost (fst ?r)"
  proof
    assume l: "textureLost (fst ?r)"
    show False
    proof (cases op)
      case True
      have "?r = (case ?f of (s', arr) \<Rightarrow> (s', storeFaces fd dimName arr))"
        using True nl by (simp add: sliceDim_def Let_def layersOf_def)
      with l e assms show False by (simp add: flat_def)
    next
      case False
      let ?slice = "\<lambda>layer. sliceWorld world op blockID tsz ti tw dimName layer T"
      have "sliceLayers ?slice ls (x, arr) =
              (dropTokens x (SliceUsage blockID dimName ` set ls), Some arr)"
        if "flat x" for ls x and arr :: sliceArrays
        using that
      proof (induction ls arbitrary: x)
        case Nil
        show ?case by simp
      next
        case (Cons l ls)
        have fl: "flat (dropTokens x {SliceUsage blockID dimName l})" using Cons.prems by simp
        from Cons.prems have "\<not> textureLost x" by (simp add: flat_def)
        then show ?case
          by (simp add: sliceWorld_flat[OF Cons.prems] Cons.IH[OF fl] Un_commute)
      qed
      from this[OF assms] have "fst ?r = dropTokens s (SliceUsage blockID dimName ` set (map int [0..<tsz]))"
        using False by (simp add: sliceDim_def Let_def)
      with l assms show False by (simp add: flat_def)
    qed
  qed
  from sliceDim_flat[OF this] e show ?thesis by simp
qed

lemma dims_flat:
  assumes "flat s"
  shows "fst (foldl (sliceDim world op blockID tsz ti tw) (s, fd) ms) =
           dropTokens s (\<Union>m \<in> set ms. SliceUsage blockID (fst m) ` set (layersOf op tsz))"
    and "snd (foldl (sliceDim world op blockID tsz ti tw) (s, fd) ms) =
           foldl (\<lambda>fd m. storeFaces fd (fst m) ([], [], [], [])) fd ms"
proof -
  have "foldl (sliceDim world op blockID tsz ti tw) (s, fd) ms =
          (dropTokens s (\<Union>m \<in> set ms. SliceUsage blockID (fst m) ` set (layersOf op tsz)),
           foldl (\<lambda>fd m. storeFaces fd (fst m) ([], [], [], [])) fd ms)"
    using assms
  proof (induction ms arbitrary: s fd)
    case Nil
    show ?case by simp
  next
    case (Cons m ms)
    obtain d T where m: "m = (d, T)" by (cases m) auto
    have fl: "flat (dropTokens s (SliceUsage blockID d ` set (layersOf op tsz)))"
      using Cons.prems by simp
    show ?case
      by (simp add: m sliceDim_flat_atlas[OF Cons.prems] Cons.IH[OF fl] Un_commute)
  qed
  then show "fst (foldl (sliceDim world op blockID tsz ti tw) (s, fd) ms) =
           dropTokens s (\<Union>m \<in> set ms. SliceUsage blockID (fst m) ` set (layersOf op tsz))"
    and "snd (foldl (sliceDim world op blockID tsz ti tw) (s, fd) ms) =
           foldl (\<lambda>fd m. storeFaces fd (fst m) ([], [], [], [])) fd ms"
    by simp_all
qed

lemma world_twice_flat:
  assumes "flat s0" and r: "worldFaceData s0 blockID world op = (s1, fd1)"
  shows "worldFaceData s1 blockID world op = (s1, fd1)"
proof -
  let ?S = "\<Union>m \<in> set TILE_MAPPINGS. SliceUsage blockID (fst m) ` set (layersOf op (tileSize s0))"
  have s1: "s1 = dropTokens s0 ?S"
    and fd1: "fd1 = foldl (\<lambda>fd m. storeFaces fd (fst m) ([], [], [], [])) Map.empty TILE_MAPPINGS"
    using r dims_flat[OF assms(1), of world op blockID "tileSize s0" "image s0"
        "width (imageHeap s0 (image s0))" Map.empty TILE_MAPPINGS]
    unfolding worldFaceData_def Let_def by simp_all
  have fl: "flat s1" unfolding s1 using assms(1) by simp
  have ts: "tileSize s1 = tileSize s0" unfolding s1 by simp
  have "fst (worldFaceData s1 blockID world op) = s1"
    unfolding worldFaceData_def Let_def dims_flat(1)[OF fl] ts unfolding s1 by simp
  moreover have "snd (worldFaceData s1 blockID world op) = fd1"
    unfolding worldFaceData_def Let_def dims_flat(2)[OF fl] fd1 ..
  ultimately show ?thesis by (metis prod.collapse)
qed

lemma foldl_colorPixel_None: "foldl (colorPixel ti tw None rgba) s uvs = s"
  by (induction uvs) (simp_all add: colorPixel_def)

lemma colorFaceData_flat:
  assumes "flat s"
  shows "colorFaceData s blockID color =
     (fst (imageCoordsFor s (ColorUsage blockID)),
      snd (foldl (colorFace (ColorUsage blockID))
             (fst (imageCoordsFor s (ColorUsage blockID)), Map.empty) TILE_MAPPINGS))"
    and "flat (fst (imageCoordsFor s (ColorUsage blockID)))"
    and "fst (imageCoordsFor (fst (imageCoordsFor s (ColorUsage blockID))) (ColorUsage blockID)) =
         fst (imageCoordsFor s (ColorUsage blockID))"
proof -
  let ?t = "ColorUsage blockID"
  let ?reg = "fst (imageCoordsFor s ?t)"
  obtain c0 c1 c2 c3 where color: "color = (c0, c1, c2, c3)" by (cases color) auto
  have ic: "imageCoordsFor s ?t = (?reg, None)"
    unfolding imageCoordsFor_flat[OF assms] by (simp split: option.splits)
  show fr: "flat ?reg" using assms unfolding imageCoordsFor_flat[OF assms]
    by (simp add: flat_def split: option.splits)
  obtain i where p: "usageMap ?reg ?t = Some i"
    unfolding imageCoordsFor_flat[OF assms] by (cases "usageMap s ?t") auto
  have nl: "\<not> textureLost ?reg" using fr by (simp add: flat_def)
  have ic2: "imageCoordsFor ?reg ?t = (?reg, None)"
    unfolding imageCoordsFor_flat[OF fr] p by simp
  then show "fst (imageCoordsFor ?reg ?t) = ?reg" by simp
  have cp: "completed ?reg ?t = ?reg" by (simp add: completed_def ic2)
  have 1: "fst (foldl (colorFace ?t) (?reg, Map.empty) TILE_MAPPINGS) = ?reg"
    by (rule foldl_colorFace_present[OF nl p])
  have "colorFaceData s blockID color = foldl (colorFace ?t) (?reg, Map.empty) TILE_MAPPINGS"
    unfolding colorFaceData_def Let_def color prod.case
    by (subst ic) (simp add: foldl_colorPixel_None cp)
  then show "colorFaceData s blockID color =
     (?reg, snd (foldl (colorFace ?t) (?reg, Map.empty) TILE_MAPPINGS))"
    using 1 by (metis prod.collapse)
qed

lemma color_twice_flat:
  assumes "flat s0" and r: "colorFaceData s0 blockID color = (s1, fd1)"
  shows "colorFaceData s1 blockID color = (s1, fd1)"
proof -
  note a = colorFaceData_flat[OF assms(1)]
  from r a(1)[of blockID color] have s1: "s1 = fst (imageCoordsFor s0 (ColorUsage blockID))"
    by simp
  from r a(1)[of blockID color] have fd1:
    "fd1 = snd (foldl (colorFace (ColorUsage blockID)) (s1, Map.empty) TILE_MAPPINGS)"
    unfolding s1 by simp
  have fl: "flat s1" unfolding s1 by (rule a(2))
  have e: "fst (imageCoordsFor s1 (ColorUsage blockID)) = s1" unfolding s1 by (rule a(3))
  show ?thesis unfolding colorFaceData_flat(1)[OF fl] e fd1 ..
qed

lemma rebuildOne_twice_flat:
  assumes "flat s0" and r: "rebuildOne symm s0 bt blockID = (s1, g1)"
  shows "rebuildOne symm s1 bt blockID = (s1, g1)"
proof (cases bt)
  case (Color color)
  obtain fd1 where c1: "colorFaceData s0 blockID color = (s1, fd1)" and e1: "g1 = replicate (COUNT symm) fd1"
    using r by (auto simp: Color rebuildColor_def split: prod.splits)
  show ?thesis by (simp add: Color rebuildColor_def color_twice_flat[OF assms(1) c1] e1)
next
  case (World world op avg)
  obtain fd1 where c1: "worldFaceData s0 blockID world op = (s1, fd1)"
    and e1: "g1 = map (\<lambda>rot. rotateFaceData symm rot fd1) [0..<COUNT symm]"
    using r by (auto simp: World rebuildWorld_def split: prod.splits)
  show ?thesis by (simp add: World rebuildWorld_def world_twice_flat[OF assms(1) c1] e1)
qed

lemma reachable_flat:
  assumes "reachable tsz s" "256 < tsz + 2"
  shows "tileCountSqrt s = 0 \<and> tileAllocMap s = []"
  using assms
proof (induction rule: reachable.induct)
  case r_new
  then show ?case by (simp add: Texgen_def enlargeTexture_def Let_def borderTileSize_def)
next
  case (r_alloc s k)
  then have a: "tileCountSqrt s = 0" "tileAllocMap s = []" by simp_all
  show ?case
    using a
    by (simp add: allocationFor_def tileAlloc_def tileAlloc_loop_empty Let_def split: option.splits)
next
  case (r_free s k)
  then have a: "tileCountSqrt s = 0" "tileAllocMap s = []" by simp_all
  show ?case using a
    by (simp add: deallocateUsage_def tileFree_def Let_def split: option.splits)
next
  case (r_ack s)
  then show ?case by (simp add: acknowledge_def)
next
  case (r_store s d i)
  then show ?case by simp
qed

text \<open>The atlas of tile size 255 is in this case.\<close>

lemma flat_example: "flat (acknowledge (Texgen 255 :: usage texgen))"
  by (simp add: flat_def acknowledge_def Texgen_def enlargeTexture_def Let_def borderTileSize_def)



section \<open>Two runs of a world block, cell by cell\<close>

lemma scanFree_here: "\<not> truthyAt m p \<Longrightarrow> 0 < k \<Longrightarrow> scanFree m p k = Some p"
  by (cases k) simp_all

lemma scanFree_next:
  "truthyAt m p \<Longrightarrow> 0 < k \<Longrightarrow> scanFree m p k = scanFree m ((p + 1) mod length m) (k - 1)"
  by (cases k) simp_all

lemma scan_alloc:
  assumes g: "good tsz ti tw s" and fr: "usageMap s t = None"
    and sc: "scanFree (tileAllocMap s) (freePointer s) (length (tileAllocMap s)) = Some j"
  shows "fst (imageCoordsFor s t) =
           s\<lparr>tileAllocMap := (tileAllocMap s)[j := 1], freePointer := j,
             usageMap := (usageMap s)(t \<mapsto> j)\<rparr>"
    and "j < length (tileAllocMap s)" and "tileAllocMap s ! j = 0"
proof -
  have ok: "allocator_ok s" and nl: "\<not> textureLost s"
    using g by (simp_all add: good_def atlas_inv_def)
  from ok have p: "freePointer s < length (tileAllocMap s)" and sub: "set (tileAllocMap s) \<subseteq> {0, 1}"
    unfolding allocator_ok_def by blast+
  then have L: "0 < length (tileAllocMap s)" by auto
  from scanFree_Some[OF p sc] obtain k where
    k: "j = (freePointer s + k) mod length (tileAllocMap s)" "\<not> truthyAt (tileAllocMap s) j"
    by blast
  show j: "j < length (tileAllocMap s)" unfolding k(1) using L by simp
  show "tileAllocMap s ! j = 0" using k(2) truthyAt_ok[OF sub j] sub j
    by (metis insertE nth_mem singletonD subsetD)
  have "tileAlloc s =
     (s\<lparr>tileAllocMap := (tileAllocMap s)[j := 1], freePointer := j\<rparr>, j, False)"
    unfolding tileAlloc_def tileAlloc_loop_scan[OF L] using sc by simp
  then have "allocationFor s t =
     (s\<lparr>tileAllocMap := (tileAllocMap s)[j := 1], freePointer := j, usageMap := (usageMap s)(t \<mapsto> j)\<rparr>,
      tileCoords (s\<lparr>tileAllocMap := (tileAllocMap s)[j := 1], freePointer := j,
                     usageMap := (usageMap s)(t \<mapsto> j)\<rparr>) j)"
    using nl fr by (simp add: allocationFor_def Let_def)
  then show "fst (imageCoordsFor s t) =
           s\<lparr>tileAllocMap := (tileAllocMap s)[j := 1], freePointer := j,
             usageMap := (usageMap s)(t \<mapsto> j)\<rparr>"
    by (simp add: imageCoordsFor_def)
qed

lemma track_absent:
  assumes tr: "tracked tsz ti tw s m fp um" and fr: "um (SliceUsage blockID dimName layer) = None"
    and sc: "scanFree m fp (length m) = Some j"
    and r: "sliceWorld world op blockID tsz ti tw dimName layer T (s, arr) = (s', arr')"
  shows "\<not> fst (layerFlags world T layer tsz) \<and> \<not> snd (layerFlags world T layer tsz) \<Longrightarrow>
           tracked tsz ti tw s' m j um \<and>
           data (imageHeap s' ti) = sliceData world T layer tsz tw (tileCoord tsz tw j) (data (imageHeap s ti))"
    and "fst (layerFlags world T layer tsz) \<or> snd (layerFlags world T layer tsz) \<Longrightarrow>
           tracked tsz ti tw s' (m[j := 1]) j (um(SliceUsage blockID dimName layer \<mapsto> j)) \<and>
           data (imageHeap s' ti) = completedData (tileCoord tsz tw j) tw tsz
              (sliceData world T layer tsz tw (tileCoord tsz tw j) (data (imageHeap s ti)))"
    and "j < length m"
proof -
  let ?t = "SliceUsage blockID dimName layer"
  let ?F = "layerFlags world T layer tsz"
  let ?c = "tileCoord tsz tw j"
  from tr have g: "good tsz ti tw s" and f: "tileAllocMap s = m" "freePointer s = fp" "usageMap s = um"
    by (simp_all add: tracked_def)
  let ?sa = "s\<lparr>tileAllocMap := m[j := 1], freePointer := j, usageMap := um(?t \<mapsto> j)\<rparr>"
  from scan_alloc[OF g, of ?t j] fr sc
  have a: "fst (imageCoordsFor s ?t) = ?sa" and j: "j < length m" "m ! j = 0"
    unfolding f by simp_all
  show "j < length m" by (rule j(1))
  have ga: "good tsz ti tw ?sa"
    using good_alloc[OF g, of ?t j] fr j unfolding f by simp
  have nla: "\<not> textureLost (fst (imageCoordsFor s ?t))" unfolding a using good_facts(6)[OF ga] .
  have ua: "usageMap ?sa ?t = Some j" by simp
  note e = r[unfolded sliceWorld_alloc[OF nla] a sliceWorld_present[OF ga ua]]
  {
    assume c: "\<not> fst ?F \<and> \<not> snd ?F"
    with e have s': "s' = deallocateUsage (writeTex ?sa ti (sliceData world T layer tsz tw ?c)) ?t"
      by simp
    have g1: "good tsz ti tw (writeTex ?sa ti (sliceData world T layer tsz tw ?c))"
      by (rule good_writeTex[OF ga]) simp
    have gs: "good tsz ti tw s'" unfolding s' by (rule good_dealloc[OF g1])
    have nlw: "\<not> textureLost (writeTex ?sa ti (sliceData world T layer tsz tw ?c))"
      using good_facts(6)[OF g1] .
    have uw: "usageMap (writeTex ?sa ti (sliceData world T layer tsz tw ?c)) ?t = Some j" by simp
    have m': "tileAllocMap s' = m"
      unfolding s' tileAllocMap_dealloc[OF nlw uw] using j(2) by (simp add: list_update_same_conv j(1))
    have u': "usageMap s' = um"
      unfolding s' usageMap_dealloc[OF nlw] using fr by (simp add: fun_upd_idem)
    have p': "freePointer s' = j"
      unfolding s' using nlw uw by (simp add: deallocateUsage_def tileFree_def Let_def)
    have d': "data (imageHeap s' ti) = sliceData world T layer tsz tw ?c (data (imageHeap s ti))"
      unfolding s' by simp
    from gs m' u' p' d'
    show "tracked tsz ti tw s' m j um \<and>
           data (imageHeap s' ti) = sliceData world T layer tsz tw ?c (data (imageHeap s ti))"
      by (simp add: tracked_def)
  }
  {
    assume c: "fst ?F \<or> snd ?F"
    with e have s': "s' = writeTex ?sa ti (\<lambda>d. completedData ?c tw tsz (sliceData world T layer tsz tw ?c d))"
      by auto
    have gs: "good tsz ti tw s'" unfolding s' by (rule good_writeTex[OF ga]) simp
    show "tracked tsz ti tw s' (m[j := 1]) j (um(?t \<mapsto> j)) \<and>
           data (imageHeap s' ti) = completedData ?c tw tsz
              (sliceData world T layer tsz tw ?c (data (imageHeap s ti)))"
      using gs unfolding tracked_def by (simp add: s')
  }
qed

lemma track_present:
  assumes tr: "tracked tsz ti tw s m fp um" and u: "um (SliceUsage blockID dimName layer) = Some i"
    and v: "fst (layerFlags world T layer tsz) \<or> snd (layerFlags world T layer tsz)"
    and r: "sliceWorld world op blockID tsz ti tw dimName layer T (s, arr) = (s', arr')"
  shows "tracked tsz ti tw s' m fp um \<and>
         data (imageHeap s' ti) = completedData (tileCoord tsz tw i) tw tsz
              (sliceData world T layer tsz tw (tileCoord tsz tw i) (data (imageHeap s ti)))"
    and "i < length m"
proof -
  let ?t = "SliceUsage blockID dimName layer"
  let ?c = "tileCoord tsz tw i"
  from tr have g: "good tsz ti tw s" and f: "tileAllocMap s = m" "freePointer s = fp" "usageMap s = um"
    by (simp_all add: tracked_def)
  have us: "usageMap s ?t = Some i" using u f by simp
  show "i < length m" using good_present(1)[OF g us] good_facts(5)[OF g] f by simp
  from r[unfolded sliceWorld_present[OF g us]] v
  have s': "s' = writeTex s ti (\<lambda>d. completedData ?c tw tsz (sliceData world T layer tsz tw ?c d))"
    by auto
  have gs: "good tsz ti tw s'" unfolding s' by (rule good_writeTex[OF g]) simp
  show "tracked tsz ti tw s' m fp um \<and>
         data (imageHeap s' ti) = completedData ?c tw tsz
              (sliceData world T layer tsz tw ?c (data (imageHeap s ti)))"
    using gs f unfolding tracked_def by (simp add: s')
qed

lemma layers2: "map int [0..<2] = [0, 1]"
proof -
  have "[0..<2::nat] = [0, 1]" by code_simp
  then show ?thesis by simp
qed

lemma dim_track_first:
  assumes tr: "tracked 2 ti tw s m fp um"
    and u0: "um (SliceUsage blockID dimName 0) = None" and u1: "um (SliceUsage blockID dimName 1) = None"
    and sc: "scanFree m fp (length m) = Some j"
    and c0: "layerFlags world T 0 2 = (False, False)"
    and v1: "fst (layerFlags world T 1 2) \<or> snd (layerFlags world T 1 2)"
    and r: "sliceDim world False blockID 2 ti tw (s, fd) (dimName, T) = (s', fd')"
  shows "tracked 2 ti tw s' (m[j := 1]) j (um(SliceUsage blockID dimName 1 \<mapsto> j))"
    and "data (imageHeap s' ti) =
           completedData (tileCoord 2 tw j) tw 2
             (sliceData world T 1 2 tw (tileCoord 2 tw j)
                (sliceData world T 0 2 tw (tileCoord 2 tw j) (data (imageHeap s ti))))"
    and "j < length m"
proof -
  let ?init = "([], [], [], []) :: sliceArrays"
  obtain sA aA where rA: "sliceWorld world False blockID 2 ti tw dimName 0 T (s, ?init) = (sA, aA)"
    by (cases "sliceWorld world False blockID 2 ti tw dimName 0 T (s, ?init)") auto
  from track_absent(1)[OF tr u0 sc rA] c0
  have tA: "tracked 2 ti tw sA m j um"
    and dA: "data (imageHeap sA ti) = sliceData world T 0 2 tw (tileCoord 2 tw j) (data (imageHeap s ti))"
    by simp_all
  show j: "j < length m" by (rule track_absent(3)[OF tr u0 sc rA])
  have gA: "good 2 ti tw sA" and mA: "tileAllocMap sA = m" using tA by (simp_all add: tracked_def)
  have g: "good 2 ti tw s" and ms: "tileAllocMap s = m" "freePointer s = fp" "usageMap s = um"
    using tr by (simp_all add: tracked_def)
  from scan_alloc(3)[OF g, of "SliceUsage blockID dimName 0" j] u0 sc
  have z: "m ! j = 0" unfolding ms by simp
  have "\<not> truthyAt m j" using z by (simp add: truthyAt_def)
  then have scA: "scanFree m j (length m) = Some j" using j by (intro scanFree_here) auto
  obtain sB aB where rB: "sliceWorld world False blockID 2 ti tw dimName 1 T (sA, aA) = (sB, aB)"
    by (cases "sliceWorld world False blockID 2 ti tw dimName 1 T (sA, aA)") auto
  from track_absent(2)[OF tA u1 scA rB v1]
  have tB: "tracked 2 ti tw sB (m[j := 1]) j (um(SliceUsage blockID dimName 1 \<mapsto> j))"
    and dB: "data (imageHeap sB ti) = completedData (tileCoord 2 tw j) tw 2
              (sliceData world T 1 2 tw (tileCoord 2 tw j) (data (imageHeap sA ti)))"
    by simp_all
  have nl: "\<not> textureLost s" "\<not> textureLost sA"
    using good_facts(6)[OF g] good_facts(6)[OF gA] by simp_all
  have "sliceDim world False blockID 2 ti tw (s, fd) (dimName, T) =
          (sB, storeFaces fd dimName aB)"
    using nl rA rB by (simp add: sliceDim_def Let_def layers2)
  with r have e: "s' = sB" by simp
  show "tracked 2 ti tw s' (m[j := 1]) j (um(SliceUsage blockID dimName 1 \<mapsto> j))"
    unfolding e by (rule tB)
  show "data (imageHeap s' ti) =
           completedData (tileCoord 2 tw j) tw 2
             (sliceData world T 1 2 tw (tileCoord 2 tw j)
                (sliceData world T 0 2 tw (tileCoord 2 tw j) (data (imageHeap s ti))))"
    unfolding e dB dA ..
qed

lemma dim_track_again:
  assumes tr: "tracked 2 ti tw s m fp um"
    and u0: "um (SliceUsage blockID dimName 0) = None" and u1: "um (SliceUsage blockID dimName 1) = Some i"
    and sc: "scanFree m fp (length m) = Some j"
    and c0: "layerFlags world T 0 2 = (False, False)"
    and v1: "fst (layerFlags world T 1 2) \<or> snd (layerFlags world T 1 2)"
    and r: "sliceDim world False blockID 2 ti tw (s, fd) (dimName, T) = (s', fd')"
  shows "tracked 2 ti tw s' m j um"
    and "data (imageHeap s' ti) =
           completedData (tileCoord 2 tw i) tw 2
             (sliceData world T 1 2 tw (tileCoord 2 tw i)
                (sliceData world T 0 2 tw (tileCoord 2 tw j) (data (imageHeap s ti))))"
    and "j < length m" and "i < length m"
proof -
  let ?init = "([], [], [], []) :: sliceArrays"
  obtain sA aA where rA: "sliceWorld world False blockID 2 ti tw dimName 0 T (s, ?init) = (sA, aA)"
    by (cases "sliceWorld world False blockID 2 ti tw dimName 0 T (s, ?init)") auto
  from track_absent(1)[OF tr u0 sc rA] c0
  have tA: "tracked 2 ti tw sA m j um"
    and dA: "data (imageHeap sA ti) = sliceData world T 0 2 tw (tileCoord 2 tw j) (data (imageHeap s ti))"
    by simp_all
  show j: "j < length m" by (rule track_absent(3)[OF tr u0 sc rA])
  have gA: "good 2 ti tw sA" using tA by (simp add: tracked_def)
  have g: "good 2 ti tw s" using tr by (simp add: tracked_def)
  obtain sB aB where rB: "sliceWorld world False blockID 2 ti tw dimName 1 T (sA, aA) = (sB, aB)"
    by (cases "sliceWorld world False blockID 2 ti tw dimName 1 T (sA, aA)") auto
  from track_present(1)[OF tA u1 v1 rB]
  have tB: "tracked 2 ti tw sB m j um"
    and dB: "data (imageHeap sB ti) = completedData (tileCoord 2 tw i) tw 2
              (sliceData world T 1 2 tw (tileCoord 2 tw i) (data (imageHeap sA ti)))"
    by simp_all
  show "i < length m" by (rule track_present(2)[OF tA u1 v1 rB])
  have nl: "\<not> textureLost s" "\<not> textureLost sA"
    using good_facts(6)[OF g] good_facts(6)[OF gA] by simp_all
  have "sliceDim world False blockID 2 ti tw (s, fd) (dimName, T) =
          (sB, storeFaces fd dimName aB)"
    using nl rA rB by (simp add: sliceDim_def Let_def layers2)
  with r have e: "s' = sB" by simp
  show "tracked 2 ti tw s' m j um" unfolding e by (rule tB)
  show "data (imageHeap s' ti) =
           completedData (tileCoord 2 tw i) tw 2
             (sliceData world T 1 2 tw (tileCoord 2 tw i)
                (sliceData world T 0 2 tw (tileCoord 2 tw j) (data (imageHeap s ti))))"
    unfolding e dB dA ..
qed

text \<open>Bytes of the interior of a cell, under the stores of a slice into another cell.\<close>

lemma slice_bytes_other:
  assumes "q < (tw div (tsz + 2)) * (tw div (tsz + 2))" "j < (tw div (tsz + 2)) * (tw div (tsz + 2))"
    "i < (tw div (tsz + 2)) * (tw div (tsz + 2))"
    "p \<in> tileBytes tsz tw q" "j \<noteq> q" "i \<noteq> q"
  shows "rd (completedData (tileCoord tsz tw i) tw tsz
             (sliceData world T l1 tsz tw (tileCoord tsz tw i)
                (sliceData world' T' l0 tsz tw (tileCoord tsz tw j) d))) p = rd d p"
proof -
  have 1: "p \<notin> ringBytes (tileCoord tsz tw i) tw tsz" by (rule tileBytes_ring[OF assms(1,3,4)])
  have 2: "p \<notin> tileBytes tsz tw i" using tileBytes_disjoint[OF assms(1,3,4)] assms(6) by blast
  have 3: "p \<notin> tileBytes tsz tw j" using tileBytes_disjoint[OF assms(1,2,4)] assms(5) by blast
  show ?thesis
    by (simp add: completedData_frame[OF 1] sliceData_frame[OF 2] sliceData_frame[OF 3])
qed

lemma slice_bytes_culled:
  assumes "q < (tw div (tsz + 2)) * (tw div (tsz + 2))" "i < (tw div (tsz + 2)) * (tw div (tsz + 2))"
    "p \<in> tileBytes tsz tw q" "i \<noteq> q"
  shows "rd (completedData (tileCoord tsz tw i) tw tsz
             (sliceData world T l1 tsz tw (tileCoord tsz tw i) d)) p = rd d p"
proof -
  have 1: "p \<notin> ringBytes (tileCoord tsz tw i) tw tsz" by (rule tileBytes_ring[OF assms(1,2,3)])
  have 2: "p \<notin> tileBytes tsz tw i" using tileBytes_disjoint[OF assms(1,2,3)] assms(4) by blast
  show ?thesis by (simp add: completedData_frame[OF 1] sliceData_frame[OF 2])
qed

lemma product2: "List.product [0..<2] [0..<2] = [(0, 0), (0, 1), (1, 0), (1, Suc 0)]"
proof -
  have "[0..<2::nat] = [0, 1]" by code_simp
  then show ?thesis by simp
qed

lemma corner_flags:
  "layerFlags cornerWorld [1, 0, 0, 0, 0, 1, 0, 0, 0, 0, 1, 0, 0, 0, 0, 1] 0 2 = (False, False)"
  "layerFlags cornerWorld [0, 1, 0, 0, 0, 0, 1, 0, 1, 0, 0, 0, 0, 0, 0, 1] 0 2 = (False, False)"
  "layerFlags cornerWorld [0, 0, 1, 0, 1, 0, 0, 0, 0, 1, 0, 0, 0, 0, 0, 1] 0 2 = (False, False)"
  "layerFlags cornerWorld [1, 0, 0, 0, 0, 1, 0, 0, 0, 0, 1, 0, 0, 0, 0, 1] 1 2 = (True, True)"
  "layerFlags cornerWorld [0, 1, 0, 0, 0, 0, 1, 0, 1, 0, 0, 0, 0, 0, 0, 1] 1 2 = (True, True)"
  "layerFlags cornerWorld [0, 0, 1, 0, 1, 0, 0, 0, 0, 1, 0, 0, 0, 0, 0, 1] 1 2 = (True, True)"
  by (simp_all add: layerFlags_def layerFlag_def cornerWorld_def multiplyVec3_def Let_def
      toUint8Clamp_def product2)

lemma byte_in_cell3: "1076 \<in> tileBytes 2 256 3"
  unfolding tileBytes_def cellBytes_iff
  by (rule exI[of _ 0], rule exI[of _ 0], rule exI[of _ 0]) simp

lemma garbage_byte:
  assumes "length d = 262144"
  shows "rd (sliceData cornerWorld [0, 0, 1, 0, 1, 0, 0, 0, 0, 1, 0, 0, 0, 0, 0, 1] 0 2 256
               (tileCoord 2 256 3) d) 1076 = 255"
  using assms
  by (simp add: sliceData_def product2 slicePixelData_def writeColor_def Let_def rd_wr
      pixelIndex_def tileCoord_def cellOrigin_def multiplyVec3_def cornerWorld_def toUint8Clamp_def)

lemma corner_scans:
  "scanFree (replicate 4096 0) 0 4096 = Some 0"
  "scanFree ((replicate 4096 0)[0 := 1]) 0 4096 = Some 1"
  "scanFree ((replicate 4096 0)[0 := 1, 1 := 1]) 1 4096 = Some 2"
  "scanFree ((replicate 4096 0)[0 := 1, 1 := 1, 2 := 1]) 2 4096 = Some 3"
  "scanFree ((replicate 4096 0)[0 := 1, 1 := 1, 2 := 1]) 3 4096 = Some 3"
  by (simp_all add: scanFree_next scanFree_here truthyAt_def)

lemma world_dims:
  assumes tr: "tracked tsz ti tw s m fp um"
    and r: "worldFaceData s blockID world op = (s', fd')"
  obtains sZ fZ sX fX where
    "sliceDim world op blockID tsz ti tw (s, Map.empty)
       (DimZ, [1, 0, 0, 0, 0, 1, 0, 0, 0, 0, 1, 0, 0, 0, 0, 1]) = (sZ, fZ)"
    "sliceDim world op blockID tsz ti tw (sZ, fZ)
       (DimX, [0, 1, 0, 0, 0, 0, 1, 0, 1, 0, 0, 0, 0, 0, 0, 1]) = (sX, fX)"
    "sliceDim world op blockID tsz ti tw (sX, fX)
       (DimY, [0, 0, 1, 0, 1, 0, 0, 0, 0, 1, 0, 0, 0, 0, 0, 1]) = (s', fd')"
proof -
  from tr have g: "good tsz ti tw s" by (simp add: tracked_def)
  have f: "tileSize s = tsz" "image s = ti" "width (imageHeap s ti) = tw"
    using good_facts(7,8,9)[OF g] by simp_all
  obtain sZ fZ where z: "sliceDim world op blockID tsz ti tw (s, Map.empty)
       (DimZ, [1, 0, 0, 0, 0, 1, 0, 0, 0, 0, 1, 0, 0, 0, 0, 1]) = (sZ, fZ)"
    by (cases "sliceDim world op blockID tsz ti tw (s, Map.empty)
       (DimZ, [1, 0, 0, 0, 0, 1, 0, 0, 0, 0, 1, 0, 0, 0, 0, 1])") auto
  obtain sX fX where x: "sliceDim world op blockID tsz ti tw (sZ, fZ)
       (DimX, [0, 1, 0, 0, 0, 0, 1, 0, 1, 0, 0, 0, 0, 0, 0, 1]) = (sX, fX)"
    by (cases "sliceDim world op blockID tsz ti tw (sZ, fZ)
       (DimX, [0, 1, 0, 0, 0, 0, 1, 0, 1, 0, 0, 0, 0, 0, 0, 1])") auto
  have "sliceDim world op blockID tsz ti tw (sX, fX)
       (DimY, [0, 0, 1, 0, 1, 0, 0, 0, 0, 1, 0, 0, 0, 0, 0, 1]) = (s', fd')"
    using r unfolding worldFaceData_def Let_def f TILE_MAPPINGS_def by (simp add: z x)
  with z x show thesis by (rule that)
qed

lemma cells4096: "(256::nat) div (2 + 2) * (256 div (2 + 2)) = 4096"
  by simp

lemma corner_flags_all:
  assumes "(dimName, T) \<in> set TILE_MAPPINGS"
  shows "layerFlags cornerWorld T 0 2 = (False, False)" "layerFlags cornerWorld T 1 2 = (True, True)"
  using assms corner_flags by (auto simp: TILE_MAPPINGS_def)

lemma corner_dim_first:
  assumes m: "(dimName, T) \<in> set TILE_MAPPINGS" and tr: "tracked 2 0 256 s m fp um"
    and u0: "um (SliceUsage blockID dimName 0) = None" and u1: "um (SliceUsage blockID dimName 1) = None"
    and sc: "scanFree m fp 4096 = Some j" and len: "length m = 4096" and j3: "j \<noteq> 3"
    and r: "sliceDim cornerWorld False blockID 2 0 256 (s, fd) (dimName, T) = (s', fd')"
  shows "tracked 2 0 256 s' (m[j := 1]) j (um(SliceUsage blockID dimName 1 \<mapsto> j))"
    and "rd (data (imageHeap s' 0)) 1076 = rd (data (imageHeap s 0)) 1076"
proof -
  have sc': "scanFree m fp (length m) = Some j" unfolding len by (rule sc)
  have v1: "fst (layerFlags cornerWorld T 1 2) \<or> snd (layerFlags cornerWorld T 1 2)"
    unfolding corner_flags_all(2)[OF m] by simp
  note t = dim_track_first[OF tr u0 u1 sc' corner_flags_all(1)[OF m] v1 r]
  show "tracked 2 0 256 s' (m[j := 1]) j (um(SliceUsage blockID dimName 1 \<mapsto> j))" by (rule t(1))
  have q: "3 < (256::nat) div (2 + 2) * (256 div (2 + 2))" by simp
  have j: "j < (256::nat) div (2 + 2) * (256 div (2 + 2))" using t(3) len by simp
  show "rd (data (imageHeap s' 0)) 1076 = rd (data (imageHeap s 0)) 1076"
    unfolding t(2) by (rule slice_bytes_other[OF q j j byte_in_cell3 j3 j3])
qed

lemma corner_dim_again:
  assumes m: "(dimName, T) \<in> set TILE_MAPPINGS" and tr: "tracked 2 0 256 s m fp um"
    and u0: "um (SliceUsage blockID dimName 0) = None" and u1: "um (SliceUsage blockID dimName 1) = Some i"
    and sc: "scanFree m fp 4096 = Some j" and len: "length m = 4096" and i3: "i \<noteq> 3"
    and r: "sliceDim cornerWorld False blockID 2 0 256 (s, fd) (dimName, T) = (s', fd')"
  shows "tracked 2 0 256 s' m j um"
    and "rd (data (imageHeap s' 0)) 1076 =
         rd (sliceData cornerWorld T 0 2 256 (tileCoord 2 256 j) (data (imageHeap s 0))) 1076"
proof -
  have sc': "scanFree m fp (length m) = Some j" unfolding len by (rule sc)
  have v1: "fst (layerFlags cornerWorld T 1 2) \<or> snd (layerFlags cornerWorld T 1 2)"
    unfolding corner_flags_all(2)[OF m] by simp
  note t = dim_track_again[OF tr u0 u1 sc' corner_flags_all(1)[OF m] v1 r]
  show "tracked 2 0 256 s' m j um" by (rule t(1))
  have q: "3 < (256::nat) div (2 + 2) * (256 div (2 + 2))" by simp
  have i: "i < (256::nat) div (2 + 2) * (256 div (2 + 2))" using t(4) len by simp
  show "rd (data (imageHeap s' 0)) 1076 =
         rd (sliceData cornerWorld T 0 2 256 (tileCoord 2 256 j) (data (imageHeap s 0))) 1076"
    unfolding t(2) by (rule slice_bytes_culled[OF q i byte_in_cell3 i3])
qed

lemma corner_first:
  assumes tr: "tracked 2 0 256 s (replicate 4096 0) 0 Map.empty"
    and r: "worldFaceData s blockID cornerWorld False = (s', fd')"
  shows "tracked 2 0 256 s' ((replicate 4096 0)[0 := 1, 1 := 1, 2 := 1]) 2
           [SliceUsage blockID DimZ 1 \<mapsto> 0, SliceUsage blockID DimX 1 \<mapsto> 1,
            SliceUsage blockID DimY 1 \<mapsto> 2]"
    and "rd (data (imageHeap s' 0)) 1076 = rd (data (imageHeap s 0)) 1076"
proof -
  from world_dims[OF tr r] obtain sZ fZ sX fX where
    z: "sliceDim cornerWorld False blockID 2 0 256 (s, Map.empty)
       (DimZ, [1, 0, 0, 0, 0, 1, 0, 0, 0, 0, 1, 0, 0, 0, 0, 1]) = (sZ, fZ)"
    and x: "sliceDim cornerWorld False blockID 2 0 256 (sZ, fZ)
       (DimX, [0, 1, 0, 0, 0, 0, 1, 0, 1, 0, 0, 0, 0, 0, 0, 1]) = (sX, fX)"
    and y: "sliceDim cornerWorld False blockID 2 0 256 (sX, fX)
       (DimY, [0, 0, 1, 0, 1, 0, 0, 0, 0, 1, 0, 0, 0, 0, 0, 1]) = (s', fd')"
    by metis
  have mz: "(DimZ, [1, 0, 0, 0, 0, 1, 0, 0, 0, 0, 1, 0, 0, 0, 0, 1]) \<in> set TILE_MAPPINGS"
    and mx: "(DimX, [0, 1, 0, 0, 0, 0, 1, 0, 1, 0, 0, 0, 0, 0, 0, 1]) \<in> set TILE_MAPPINGS"
    and my: "(DimY, [0, 0, 1, 0, 1, 0, 0, 0, 0, 1, 0, 0, 0, 0, 0, 1]) \<in> set TILE_MAPPINGS"
    by (simp_all add: TILE_MAPPINGS_def)
  have tZ: "tracked 2 0 256 sZ ((replicate 4096 0)[0 := 1]) 0 (Map.empty(SliceUsage blockID DimZ 1 \<mapsto> 0))"
    and dZ: "rd (data (imageHeap sZ 0)) 1076 = rd (data (imageHeap s 0)) 1076"
    by (rule corner_dim_first[OF mz tr _ _ corner_scans(1) _ _ z]; simp)+
  have tX: "tracked 2 0 256 sX ((replicate 4096 0)[0 := 1, 1 := 1]) 1
      ((Map.empty(SliceUsage blockID DimZ 1 \<mapsto> 0))(SliceUsage blockID DimX 1 \<mapsto> 1))"
    and dX: "rd (data (imageHeap sX 0)) 1076 = rd (data (imageHeap sZ 0)) 1076"
    by (rule corner_dim_first[OF mx tZ _ _ corner_scans(2) _ _ x]; simp)+
  have tY: "tracked 2 0 256 s' ((replicate 4096 0)[0 := 1, 1 := 1, 2 := 1]) 2
      (((Map.empty(SliceUsage blockID DimZ 1 \<mapsto> 0))(SliceUsage blockID DimX 1 \<mapsto> 1))
         (SliceUsage blockID DimY 1 \<mapsto> 2))"
    and dY: "rd (data (imageHeap s' 0)) 1076 = rd (data (imageHeap sX 0)) 1076"
    by (rule corner_dim_first[OF my tX _ _ corner_scans(3) _ _ y]; simp)+
  show "tracked 2 0 256 s' ((replicate 4096 0)[0 := 1, 1 := 1, 2 := 1]) 2
           [SliceUsage blockID DimZ 1 \<mapsto> 0, SliceUsage blockID DimX 1 \<mapsto> 1,
            SliceUsage blockID DimY 1 \<mapsto> 2]" by (rule tY)
  show "rd (data (imageHeap s' 0)) 1076 = rd (data (imageHeap s 0)) 1076"
    using dZ dX dY by simp
qed

lemma corner_second:
  assumes tr: "tracked 2 0 256 s ((replicate 4096 0)[0 := 1, 1 := 1, 2 := 1]) 2
           [SliceUsage blockID DimZ 1 \<mapsto> 0, SliceUsage blockID DimX 1 \<mapsto> 1,
            SliceUsage blockID DimY 1 \<mapsto> 2]"
    and r: "worldFaceData s blockID cornerWorld False = (s', fd')"
  shows "tracked 2 0 256 s' ((replicate 4096 0)[0 := 1, 1 := 1, 2 := 1]) 3
           [SliceUsage blockID DimZ 1 \<mapsto> 0, SliceUsage blockID DimX 1 \<mapsto> 1,
            SliceUsage blockID DimY 1 \<mapsto> 2]"
    and "rd (data (imageHeap s' 0)) 1076 = 255"
proof -
  let ?m = "(replicate 4096 0)[0 := 1, 1 := 1, 2 := (1::nat)]"
  let ?um = "[SliceUsage blockID DimZ 1 \<mapsto> 0, SliceUsage blockID DimX 1 \<mapsto> 1,
            SliceUsage blockID DimY 1 \<mapsto> (2::nat)]"
  from world_dims[OF tr r] obtain sZ fZ sX fX where
    z: "sliceDim cornerWorld False blockID 2 0 256 (s, Map.empty)
       (DimZ, [1, 0, 0, 0, 0, 1, 0, 0, 0, 0, 1, 0, 0, 0, 0, 1]) = (sZ, fZ)"
    and x: "sliceDim cornerWorld False blockID 2 0 256 (sZ, fZ)
       (DimX, [0, 1, 0, 0, 0, 0, 1, 0, 1, 0, 0, 0, 0, 0, 0, 1]) = (sX, fX)"
    and y: "sliceDim cornerWorld False blockID 2 0 256 (sX, fX)
       (DimY, [0, 0, 1, 0, 1, 0, 0, 0, 0, 1, 0, 0, 0, 0, 0, 1]) = (s', fd')"
    by metis
  have mz: "(DimZ, [1, 0, 0, 0, 0, 1, 0, 0, 0, 0, 1, 0, 0, 0, 0, 1]) \<in> set TILE_MAPPINGS"
    and mx: "(DimX, [0, 1, 0, 0, 0, 0, 1, 0, 1, 0, 0, 0, 0, 0, 0, 1]) \<in> set TILE_MAPPINGS"
    and my: "(DimY, [0, 0, 1, 0, 1, 0, 0, 0, 0, 1, 0, 0, 0, 0, 0, 1]) \<in> set TILE_MAPPINGS"
    by (simp_all add: TILE_MAPPINGS_def)
  have tZ: "tracked 2 0 256 sZ ?m 3 ?um"
    by (rule corner_dim_again(1)[OF mz tr _ _ corner_scans(4) _ _ z, of 0]; simp)
  have tX: "tracked 2 0 256 sX ?m 3 ?um"
    by (rule corner_dim_again(1)[OF mx tZ _ _ corner_scans(5) _ _ x, of 1]; simp)
  have tY: "tracked 2 0 256 s' ?m 3 ?um"
    by (rule corner_dim_again(1)[OF my tX _ _ corner_scans(5) _ _ y, of 2]; simp)
  have dY: "rd (data (imageHeap s' 0)) 1076 =
         rd (sliceData cornerWorld [0, 0, 1, 0, 1, 0, 0, 0, 0, 1, 0, 0, 0, 0, 0, 1] 0 2 256
               (tileCoord 2 256 3) (data (imageHeap sX 0))) 1076"
    by (rule corner_dim_again(2)[OF my tX _ _ corner_scans(5) _ _ y, of 2]; simp)
  have "good 2 0 256 sX" using tX by (simp add: tracked_def)
  from good_facts(10)[OF this] have "length (data (imageHeap sX 0)) = 262144" by simp
  from garbage_byte[OF this] dY show "rd (data (imageHeap s' 0)) 1076 = 255" by simp
  show "tracked 2 0 256 s' ?m 3 ?um" by (rule tY)
qed

lemma corner_start: "tracked 2 0 256 (acknowledge (Texgen 2)) (replicate 4096 0) 0 Map.empty"
proof -
  have r: "reachable 2 (acknowledge (Texgen 2 :: usage texgen))" by (intro r_ack r_new)
  have nl: "\<not> textureLost (acknowledge (Texgen 2 :: usage texgen))" by (simp add: acknowledge_def)
  have le: "(2::nat) + 2 \<le> 256" by simp
  have f: "image (acknowledge (Texgen 2 :: usage texgen)) = 0"
    "textureSize (acknowledge (Texgen 2 :: usage texgen)) = 256"
    "tileAllocMap (acknowledge (Texgen 2 :: usage texgen)) = replicate 4096 0"
    "freePointer (acknowledge (Texgen 2 :: usage texgen)) = 0"
    "usageMap (acknowledge (Texgen 2 :: usage texgen)) = Map.empty"
    by (simp_all add: acknowledge_def Texgen_def enlargeTexture_def Let_def borderTileSize_def)
  from reachable_good[OF le r nl] show ?thesis unfolding tracked_def f by simp
qed

lemma corner_runs:
  fixes symm :: cubeSymmetry
  defines "s1 \<equiv> fst (rebuildOne symm (acknowledge (Texgen 2)) (World cornerWorld False (0, 0, 0)) 1)"
  defines "s2 \<equiv> fst (rebuildOne symm s1 (World cornerWorld False (0, 0, 0)) 1)"
  shows "tracked 2 0 256 s1 ((replicate 4096 0)[0 := 1, 1 := 1, 2 := 1]) 2
           [SliceUsage 1 DimZ 1 \<mapsto> 0, SliceUsage 1 DimX 1 \<mapsto> 1, SliceUsage 1 DimY 1 \<mapsto> 2]"
    and "tracked 2 0 256 s2 ((replicate 4096 0)[0 := 1, 1 := 1, 2 := 1]) 3
           [SliceUsage 1 DimZ 1 \<mapsto> 0, SliceUsage 1 DimX 1 \<mapsto> 1, SliceUsage 1 DimY 1 \<mapsto> 2]"
    and "rd (data (imageHeap s1 0)) 1076 = 0" and "rd (data (imageHeap s2 0)) 1076 = 255"
proof -
  let ?s0 = "acknowledge (Texgen 2) :: usage texgen"
  have e1: "s1 = fst (worldFaceData ?s0 1 cornerWorld False)"
    unfolding s1_def by (simp add: rebuildWorld_def split: prod.splits)
  have e2: "s2 = fst (worldFaceData s1 1 cornerWorld False)"
    unfolding s2_def by (simp add: rebuildWorld_def split: prod.splits)
  obtain fd1 where r1: "worldFaceData ?s0 1 cornerWorld False = (s1, fd1)"
    unfolding e1 by (cases "worldFaceData ?s0 1 cornerWorld False") auto
  obtain fd2 where r2: "worldFaceData s1 1 cornerWorld False = (s2, fd2)"
    unfolding e2 by (cases "worldFaceData s1 1 cornerWorld False") auto
  note a = corner_first[OF corner_start r1]
  note b = corner_second[OF a(1) r2]
  show "tracked 2 0 256 s1 ((replicate 4096 0)[0 := 1, 1 := 1, 2 := 1]) 2
           [SliceUsage 1 DimZ 1 \<mapsto> 0, SliceUsage 1 DimX 1 \<mapsto> 1, SliceUsage 1 DimY 1 \<mapsto> 2]"
    by (rule a(1))
  show "tracked 2 0 256 s2 ((replicate 4096 0)[0 := 1, 1 := 1, 2 := 1]) 3
           [SliceUsage 1 DimZ 1 \<mapsto> 0, SliceUsage 1 DimX 1 \<mapsto> 1, SliceUsage 1 DimY 1 \<mapsto> 2]"
    by (rule b(1))
  have "rd (data (imageHeap ?s0 0)) 1076 = 0"
    by (simp add: acknowledge_def Texgen_def enlargeTexture_def Let_def createImageData_def rd_def)
  with a(2) show "rd (data (imageHeap s1 0)) 1076 = 0" by simp
  show "rd (data (imageHeap s2 0)) 1076 = 255" by (rule b(2))
qed

lemma corner_tracked:
  "tracked 2 0 256 (fst cornerOnce) ((replicate 4096 0)[0 := 1, 1 := 1, 2 := 1]) 2
           [SliceUsage 1 DimZ 1 \<mapsto> 0, SliceUsage 1 DimX 1 \<mapsto> 1, SliceUsage 1 DimY 1 \<mapsto> 2]"
  "tracked 2 0 256 (fst cornerTwice) ((replicate 4096 0)[0 := 1, 1 := 1, 2 := 1]) 3
           [SliceUsage 1 DimZ 1 \<mapsto> 0, SliceUsage 1 DimX 1 \<mapsto> 1, SliceUsage 1 DimY 1 \<mapsto> 2]"
  "rd (data (imageHeap (fst cornerOnce) 0)) 1076 = 0"
  "rd (data (imageHeap (fst cornerTwice) 0)) 1076 = 255"
  unfolding cornerTwice_def cornerOnce_def cornerBlock_def by (rule corner_runs)+


lemma byte_in_cell0: "1028 \<in> tileBytes 2 256 0"
  unfolding tileBytes_def cellBytes_iff
  by (rule exI[of _ 0], rule exI[of _ 0], rule exI[of _ 0]) simp



end
